theory Spec2Isabelle
  imports Complex_Main
begin

section \<open>The parcel table of the flume notebook\<close>

text \<open>
  The notebook \<^verbatim>\<open>NST_FlumeExample.ipynb\<close> drives landlab's
  NetworkSedimentTransporter over a table of sediment parcels
  (\<^verbatim>\<open>parcels.dataset\<close>).  The variables of that table and their dimensions are
  the ones the notebook lists when it builds a pulse (\<^verbatim>\<open>new_variables\<close>,
  \<^verbatim>\<open>new_parcels\<close>): \<^verbatim>\<open>starting_link\<close>, \<^verbatim>\<open>source\<close>,
  \<^verbatim>\<open>density\<close> and \<^verbatim>\<open>abrasion_rate\<close> are indexed by \<^verbatim>\<open>item_id\<close> only; the
  others are indexed by \<^verbatim>\<open>item_id\<close> and \<^verbatim>\<open>time\<close>.  One row of the table is a
  record; a variable with a time axis is the list of its columns, oldest first, and an
  entry is \<open>None\<close> where the table holds NaN (a parcel that did not exist yet).
  Python floats are idealised as reals.
\<close>

record parcel =
  starting_link :: int
  source :: string
  density :: real
  abrasion_rate :: real
  grid_element :: "string option list"
  element_id :: "int option list"
  time_arrival_in_link :: "real option list"
  active_layer :: "real option list"
  location_in_link :: "real option list"
  D :: "real option list"
  volume :: "real option list"

text \<open>Every time-indexed variable of a row has \<open>n\<close> columns.\<close>

definition aligned :: "nat \<Rightarrow> parcel \<Rightarrow> bool" where
  "aligned n p =
     (length (grid_element p) = n \<and> length (element_id p) = n \<and>
      length (time_arrival_in_link p) = n \<and> length (active_layer p) = n \<and>
      length (location_in_link p) = n \<and> length (D p) = n \<and> length (volume p) = n)"

text \<open>
  \<^verbatim>\<open>OUT_OF_NETWORK = NetworkModelGrid.BAD_INDEX - 1\<close>; the notebook's comment gives
  its value, \<^verbatim>\<open>define the 'out of network' link index (-2)\<close>, so landlab's
  \<^verbatim>\<open>BAD_INDEX\<close> is \<open>-1\<close>.
\<close>

definition BAD_INDEX :: int where
  "BAD_INDEX = - 1"

definition OUT_OF_NETWORK :: int where
  "OUT_OF_NETWORK = BAD_INDEX - 1"

text \<open>
  The errors: the four fatal errors of the engine's taxonomy, and Python's
  \<^verbatim>\<open>IndexError\<close> for the notebook's own indexing.
\<close>

datatype error =
  InvalidReachError | OutOfRangeError | InvalidHydraulicStateError |
  TopologyDegenerateError | IndexError

subsection \<open>Indexing\<close>

text \<open>
  \<^verbatim>\<open>values[:, -1]\<close>: the last column of a variable, one entry per row.  numpy raises
  \<^verbatim>\<open>IndexError\<close> when the time axis is empty.
\<close>

definition last_column :: "'a list list \<Rightarrow> error + 'a list" where
  "last_column rows = (if \<exists>r\<in>set rows. r = [] then Inl IndexError else Inr (map last rows))"

text \<open>\<^verbatim>\<open>xs[t]\<close> with Python's negative indices.\<close>

definition py_index :: "'a list \<Rightarrow> int \<Rightarrow> error + 'a" where
  "py_index xs t =
     (let n = int (length xs); j = (if t < 0 then n + t else t)
      in if 0 \<le> j \<and> j < n then Inr (xs ! nat j) else Inl IndexError)"

text \<open>\<^verbatim>\<open>column[-1] = v\<close> on one row.\<close>

definition set_last :: "'a \<Rightarrow> 'a list \<Rightarrow> 'a list" where
  "set_last v xs = xs[length xs - 1 := v]"

text \<open>
  The entry a parcel has at the most recent time; a table with no recorded time has none.
  A parcel has left the network when that entry of \<^verbatim>\<open>element_id\<close> is the sentinel.
\<close>

definition latest :: "'a option list \<Rightarrow> 'a option" where
  "latest xs = (if xs = [] then None else last xs)"

definition exited :: "parcel \<Rightarrow> bool" where
  "exited p = (latest (element_id p) = Some OUT_OF_NETWORK)"

text \<open>
  The three masked assignments of the recycling blocks.  The mask is a boolean array
  with one entry per row.
  \<^verbatim>\<open>parcels.dataset.starting_link.values[mask] = v\<close>,
  \<^verbatim>\<open>parcels.dataset.location_in_link.values[mask, -1] = v\<close>,
  \<^verbatim>\<open>parcels.dataset.element_id.values[mask, -1] = v\<close>.
\<close>

definition assign_starting_link :: "bool list \<Rightarrow> int \<Rightarrow> parcel list \<Rightarrow> parcel list" where
  "assign_starting_link msk v ps =
     map (\<lambda>(m, p). if m then p\<lparr>starting_link := v\<rparr> else p) (zip msk ps)"

definition assign_location_in_link :: "bool list \<Rightarrow> real \<Rightarrow> parcel list \<Rightarrow> parcel list" where
  "assign_location_in_link msk v ps =
     map (\<lambda>(m, p). if m then p\<lparr>location_in_link := set_last (Some v) (location_in_link p)\<rparr> else p)
       (zip msk ps)"

definition assign_element_id :: "bool list \<Rightarrow> int \<Rightarrow> parcel list \<Rightarrow> parcel list" where
  "assign_element_id msk v ps =
     map (\<lambda>(m, p). if m then p\<lparr>element_id := set_last (Some v) (element_id p)\<rparr> else p)
       (zip msk ps)"

subsection \<open>Relocation and the position query\<close>

text \<open>
  Moving the selected parcels to reach \<open>r\<close>, position \<open>x\<close>: the two position
  assignments of the recycling blocks, in the notebook's order, with the constants
  \<^verbatim>\<open>1\<close> and \<^verbatim>\<open>0.\<close> as parameters.  A boolean mask of the wrong length is numpy's
  \<^verbatim>\<open>IndexError\<close>, and so is an empty time axis.
\<close>

definition relocate :: "bool list \<Rightarrow> int \<Rightarrow> real \<Rightarrow> parcel list \<Rightarrow> error + parcel list" where
  "relocate msk r x ps =
     (if length msk \<noteq> length ps then Inl IndexError
      else if \<exists>p\<in>set ps. location_in_link p = [] \<or> element_id p = [] then Inl IndexError
      else Inr (assign_element_id msk r (assign_location_in_link msk x ps)))"

text \<open>
  The position of parcel \<open>i\<close> at column \<open>t\<close>, as the notebook reads it:
  \<^verbatim>\<open>parcels.dataset.element_id.values[i, t]\<close> and
  \<^verbatim>\<open>parcels.dataset.location_in_link.values[i, t]\<close>.
\<close>

definition position_at :: "parcel list \<Rightarrow> nat \<Rightarrow> int \<Rightarrow> error + (int option \<times> real option)" where
  "position_at ps i t =
     (if i < length ps
      then (case py_index (element_id (ps ! i)) t of
              Inl e \<Rightarrow> Inl e
            | Inr r \<Rightarrow> (case py_index (location_in_link (ps ! i)) t of
                         Inl e \<Rightarrow> Inl e
                       | Inr x \<Rightarrow> Inr (r, x)))
      else Inl IndexError)"

subsection \<open>The recycling blocks\<close>

text \<open>
  Configuration 2:
  \<^verbatim>\<open>mask_exited = parcels.dataset.element_id.values[:,-1] == OUT_OF_NETWORK\<close>.
  A NaN entry compares unequal.
\<close>

definition mask_exited :: "parcel list \<Rightarrow> error + bool list" where
  "mask_exited ps =
     (case last_column (map element_id ps) of
        Inl e \<Rightarrow> Inl e
      | Inr col \<Rightarrow> Inr (map (\<lambda>v. v = Some OUT_OF_NETWORK) col))"

text \<open>
  \<^verbatim>\<open>starting_link.values[mask_exited] = OUT_OF_NETWORK\<close> (``denote it was recycled:
  starting link = outlet''), then position \<^verbatim>\<open>0.\<close> and reach \<^verbatim>\<open>1\<close> in the last
  column.
\<close>

definition recycle_exited :: "parcel list \<Rightarrow> error + parcel list" where
  "recycle_exited ps =
     (case mask_exited ps of
        Inl e \<Rightarrow> Inl e
      | Inr msk \<Rightarrow>
          Inr (assign_element_id msk 1
                (assign_location_in_link msk 0
                  (assign_starting_link msk OUT_OF_NETWORK ps))))"

text \<open>
  Configuration 3 recycles bed sediment only:
  \<^verbatim>\<open>mask_initial_bed = parcels.dataset.source == "initial_bed_sed"\<close>, and the three
  assignments go through \<^verbatim>\<open>mask_exited & mask_initial_bed\<close>, with the literal
  \<^verbatim>\<open>-2\<close> for the starting link.
\<close>

definition mask_initial_bed :: "parcel list \<Rightarrow> bool list" where
  "mask_initial_bed ps = map (\<lambda>p. source p = ''initial_bed_sed'') ps"

definition mask_and :: "bool list \<Rightarrow> bool list \<Rightarrow> bool list" where
  "mask_and a b = map (\<lambda>(x, y). x \<and> y) (zip a b)"

definition recycle_initial_bed :: "parcel list \<Rightarrow> error + parcel list" where
  "recycle_initial_bed ps =
     (case mask_exited ps of
        Inl e \<Rightarrow> Inl e
      | Inr msk \<Rightarrow>
          (let both = mask_and msk (mask_initial_bed ps)
           in Inr (assign_element_id both 1
                    (assign_location_in_link both 0
                      (assign_starting_link both (- 2) ps)))))"

section \<open>The notebook's time loops\<close>

text \<open>
  What the loops work on: the grid, the transporter's time index
  (\<^verbatim>\<open>nst._time_idx\<close>) and the parcel table.  The grid belongs to the engine; the
  notebook reads it only for plotting, which is left out.
\<close>

record 'g model =
  grid :: 'g
  nst_time_idx :: nat
  parcels :: "parcel list"

text \<open>
  \<^verbatim>\<open>for t in range(0, (timesteps*dt), dt)\<close>.  The notebook calls \<^verbatim>\<open>range\<close> with
  positive constants only; a step that is not positive gives no iteration here.
\<close>

definition py_range :: "int \<Rightarrow> int \<Rightarrow> int list" where
  "py_range stop step =
     (if step \<le> 0 then []
      else map (\<lambda>k. int k * step) [0..<nat ((stop + step - 1) div step)])"

text \<open>A loop body runs once per value of \<open>t\<close>; an exception ends the loop.\<close>

fun run_loop :: "(int \<Rightarrow> 's \<Rightarrow> error + 's) \<Rightarrow> int list \<Rightarrow> 's \<Rightarrow> error + 's" where
  "run_loop body [] m = Inr m"
| "run_loop body (t # ts) m =
     (case body t m of Inl e \<Rightarrow> Inl e | Inr m' \<Rightarrow> run_loop body ts m')"

text \<open>
  The two calls into landlab are parameters of the loops: \<open>step\<close> stands for
  \<^verbatim>\<open>nst.run_one_step(dt)\<close> and \<open>add\<close> for \<^verbatim>\<open>parcels.add_item(...)\<close>.

  Configuration 2: recycle, then run one step.
\<close>

definition config2_body ::
  "(int \<Rightarrow> 'g model \<Rightarrow> error + 'g model) \<Rightarrow> int \<Rightarrow> int \<Rightarrow> 'g model \<Rightarrow> error + 'g model" where
  "config2_body step dt t m =
     (case recycle_exited (parcels m) of
        Inl e \<Rightarrow> Inl e
      | Inr ps \<Rightarrow> step dt (m\<lparr>parcels := ps\<rparr>))"

definition config2 :: "(int \<Rightarrow> 'g model \<Rightarrow> error + 'g model) \<Rightarrow> 'g model \<Rightarrow> error + 'g model" where
  "config2 step m =
     (let timesteps = 300; dt = 60 * 60 * 24 * 5
      in run_loop (config2_body step dt) (py_range (timesteps * dt) dt) m)"

text \<open>
  Configuration 3.  The pulse: \<^verbatim>\<open>num_pulse_parcels = 200\<close>, \<^verbatim>\<open>pulse_time = 50\<close>,
  \<^verbatim>\<open>pulse_link = 5\<close>.  The new rows are those of \<^verbatim>\<open>new_variables\<close> and
  \<^verbatim>\<open>new_parcels\<close>, each with one column; \<open>rand k\<close> is the \<open>k\<close>-th draw of
  \<^verbatim>\<open>np.random.rand(num_pulse_parcels, 1)\<close>.
\<close>

definition num_pulse_parcels :: nat where
  "num_pulse_parcels = 200"

definition pulse_time :: int where
  "pulse_time = 50"

definition pulse_link :: int where
  "pulse_link = 5"

definition new_pulse_parcels :: "nat \<Rightarrow> (nat \<Rightarrow> real) \<Rightarrow> parcel list" where
  "new_pulse_parcels tidx rand =
     map (\<lambda>k.
        \<lparr>starting_link = pulse_link, source = ''pulse'', density = 2650, abrasion_rate = 0,
         grid_element = [Some ''link''],
         element_id = [Some pulse_link],
         time_arrival_in_link = [Some (real tidx)],
         active_layer = [Some 1],
         location_in_link = [Some (rand k)],
         D = [Some (8 / 100)],
         volume = [Some 2]\<rparr>)
       [0..<num_pulse_parcels]"

text \<open>
  \<^verbatim>\<open>if t==dt*pulse_time: ... parcels.add_item(time=[nst._time], ...)\<close>.  The rows are
  added at the transporter's current time, the column \<^verbatim>\<open>nst._time_idx\<close>.
\<close>

definition pulse_block ::
  "(nat \<Rightarrow> parcel list \<Rightarrow> parcel list \<Rightarrow> error + parcel list) \<Rightarrow> (nat \<Rightarrow> real) \<Rightarrow>
   int \<Rightarrow> int \<Rightarrow> nat \<Rightarrow> parcel list \<Rightarrow> error + parcel list" where
  "pulse_block add rand dt t tidx ps =
     (if t = dt * pulse_time then add tidx (new_pulse_parcels tidx rand) ps else Inr ps)"

definition config3_body ::
  "(int \<Rightarrow> 'g model \<Rightarrow> error + 'g model) \<Rightarrow>
   (nat \<Rightarrow> parcel list \<Rightarrow> parcel list \<Rightarrow> error + parcel list) \<Rightarrow> (nat \<Rightarrow> real) \<Rightarrow>
   int \<Rightarrow> int \<Rightarrow> 'g model \<Rightarrow> error + 'g model" where
  "config3_body step add rand dt t m =
     (case recycle_initial_bed (parcels m) of
        Inl e \<Rightarrow> Inl e
      | Inr ps \<Rightarrow>
          (case pulse_block add rand dt t (nst_time_idx m) ps of
             Inl e \<Rightarrow> Inl e
           | Inr ps' \<Rightarrow> step dt (m\<lparr>parcels := ps'\<rparr>)))"

definition config3 ::
  "(int \<Rightarrow> 'g model \<Rightarrow> error + 'g model) \<Rightarrow>
   (nat \<Rightarrow> parcel list \<Rightarrow> parcel list \<Rightarrow> error + parcel list) \<Rightarrow> (nat \<Rightarrow> real) \<Rightarrow>
   'g model \<Rightarrow> error + 'g model" where
  "config3 step add rand m =
     (let timesteps = 100; dt = 60 * 60 * 24
      in run_loop (config3_body step add rand dt) (py_range (timesteps * dt) dt) m)"

text \<open>
  What the loops rely on from the two calls.  A step keeps every row in place, keeps
  its source tag, and leaves a parcel that is out of the network out of it (the engine
  moves only parcels on a reach).  Adding items keeps the rows the table already has.
\<close>

definition step_keeps_exited :: "(int \<Rightarrow> 'g model \<Rightarrow> error + 'g model) \<Rightarrow> bool" where
  "step_keeps_exited step =
     (\<forall>dt m m'. step dt m = Inr m' \<longrightarrow>
        length (parcels m) \<le> length (parcels m') \<and>
        (\<forall>i<length (parcels m).
           source (parcels m' ! i) = source (parcels m ! i) \<and>
           (exited (parcels m ! i) \<longrightarrow> exited (parcels m' ! i))))"

definition add_keeps_rows ::
  "(nat \<Rightarrow> parcel list \<Rightarrow> parcel list \<Rightarrow> error + parcel list) \<Rightarrow> bool" where
  "add_keeps_rows add =
     (\<forall>k new ps ps'. add k new ps = Inr ps' \<longrightarrow>
        length ps \<le> length ps' \<and> (\<forall>i<length ps. ps' ! i = ps ! i))"

section \<open>The routing engine and the parcel store, from the specification\<close>

text \<open>
  The transport step and \<^verbatim>\<open>add_item\<close> are landlab's: the repository holds only
  their callers.  The definitions of this section follow the specification of the engine
  (sections 3 and 4), with the numerical relations it leaves open as parameters.
\<close>

subsection \<open>Network topology\<close>

text \<open>
  Modelled from the spec: a reach carries its length, width, slope and flow depth and a
  downstream routing target, which is a reach index or the out-of-network sentinel
  (section 3, Reach; section 4.1).
\<close>

record reach =
  reach_length :: real
  channel_width :: real
  channel_slope :: real
  flow_depth :: real
  downstream :: int

text \<open>
  Modelled from the spec: \<^verbatim>\<open>geometry(r)\<close> of section 4.1, which fails with
  \<^verbatim>\<open>InvalidReachError\<close> on an index out of range.  The downstream reach of \<open>r\<close>
  (\<^verbatim>\<open>downstream_reach(r)\<close>) is the field \<open>downstream\<close> of its geometry.
\<close>

definition geometry :: "reach list \<Rightarrow> int \<Rightarrow> error + reach" where
  "geometry topo r =
     (if 0 \<le> r \<and> r < int (length topo) then Inr (topo ! nat r) else Inl InvalidReachError)"

subsection \<open>The cascade\<close>

text \<open>
  Modelled from the spec: the outcome of an advance.  The parcel comes to rest on a
  reach at a fractional position, or it has left the network; either way after a number
  of reach-to-reach hops.
\<close>

datatype advance = Landed int real nat | Left_network nat

text \<open>
  Modelled from the spec: step 4 of section 4.4 as it reads.  A parcel at position \<open>x\<close>
  of reach \<open>r\<close> has \<open>d\<close> metres to travel.  If that fits into the rest of the reach,
  the fractional position advances.  Otherwise the remainder is carried to the upstream
  end of the downstream reach, one hop more; the walk ends when the remainder fits or the
  sentinel is reached.  On a reach of length zero only a distance of zero fits, and
  nothing is divided.  Nothing bounds the hops, so the walk need not end: not returning
  is the value \<open>None\<close>.
\<close>

partial_function (option) cascade_unbounded ::
  "reach list \<Rightarrow> nat \<Rightarrow> int \<Rightarrow> real \<Rightarrow> real \<Rightarrow> (error + advance) option" where
  "cascade_unbounded topo hops r x d =
     (case geometry topo r of
        Inl e \<Rightarrow> Some (Inl e)
      | Inr g \<Rightarrow>
          if d \<le> (1 - x) * reach_length g
          then Some (Inr (Landed r (if reach_length g = 0 then x else x + d / reach_length g) hops))
          else if downstream g = OUT_OF_NETWORK then Some (Inr (Left_network (Suc hops)))
          else cascade_unbounded topo (Suc hops) (downstream g) 0 (d - (1 - x) * reach_length g))"

text \<open>
  Modelled from the spec: step 4 with the failure semantics of section 4.4.  The same
  walk with a hop counter \<open>hops\<close>, which starts at 0: a hop beyond the maximum
  cascade-hop count is a \<^verbatim>\<open>TopologyDegenerateError\<close>.
\<close>

function cascade ::
  "reach list \<Rightarrow> nat \<Rightarrow> nat \<Rightarrow> int \<Rightarrow> real \<Rightarrow> real \<Rightarrow> error + advance" where
  "cascade topo max_hops hops r x d =
     (case geometry topo r of
        Inl e \<Rightarrow> Inl e
      | Inr g \<Rightarrow>
          if d \<le> (1 - x) * reach_length g
          then Inr (Landed r (if reach_length g = 0 then x else x + d / reach_length g) hops)
          else if max_hops \<le> hops then Inl TopologyDegenerateError
          else if downstream g = OUT_OF_NETWORK then Inr (Left_network (Suc hops))
          else cascade topo max_hops (Suc hops) (downstream g) 0 (d - (1 - x) * reach_length g))"
  by pat_completeness auto
termination
  by (relation "measure (\<lambda>(topo, max_hops, hops, r, x, d). max_hops - hops)") auto

declare cascade.simps [simp del]

text \<open>The number of reach-to-reach hops an advance made.\<close>

fun hops_of :: "advance \<Rightarrow> nat" where
  "hops_of (Landed r x h) = h"
| "hops_of (Left_network h) = h"

subsection \<open>The pluggable relations\<close>

text \<open>
  Modelled from the spec: what sections 4.3, 4.4 and 9 leave to a policy.  The maximum
  cascade-hop count; the position recorded for a parcel that left the network (the
  specification names none); active-layer membership of parcel \<open>i\<close> (either policy of
  section 4.3); the critical shear stress for a grain size and a density; the travel
  distance of a step from grain size, shear stress, critical stress and \<open>dt\<close>; the
  volume left after abrasion from volume, abrasion rate and distance; and the slope of
  reach \<open>k\<close> after the bed-elevation update of step 6.
\<close>

record policy =
  max_cascade_hops :: nat
  exit_location :: "real option"
  active_layer_member :: "reach list \<Rightarrow> parcel list \<Rightarrow> nat \<Rightarrow> bool"
  critical_shear_stress :: "real \<Rightarrow> real \<Rightarrow> real"
  travel_distance :: "real \<Rightarrow> real \<Rightarrow> real \<Rightarrow> int \<Rightarrow> real"
  abraded_volume :: "real \<Rightarrow> real \<Rightarrow> real \<Rightarrow> real"
  bed_slope :: "reach list \<Rightarrow> parcel list \<Rightarrow> nat \<Rightarrow> real"

text \<open>
  Modelled from the spec: step 1, the shear stress of a reach as the depth-slope product
  \<open>\<rho> g h S\<close> of water.
\<close>

definition shear_stress :: "reach \<Rightarrow> real" where
  "shear_stress g = 1000 * (981 / 100) * flow_depth g * channel_slope g"

subsection \<open>The parcel store\<close>

text \<open>
  Modelled from the spec: \<^verbatim>\<open>append_timestep()\<close> of section 4.2 extends every history
  by one entry, a copy of the previous one.
\<close>

definition extend :: "'a option list \<Rightarrow> 'a option list" where
  "extend xs = xs @ [latest xs]"

definition append_timestep :: "parcel \<Rightarrow> parcel" where
  "append_timestep p =
     p\<lparr>grid_element := extend (grid_element p),
       element_id := extend (element_id p),
       time_arrival_in_link := extend (time_arrival_in_link p),
       active_layer := extend (active_layer p),
       location_in_link := extend (location_in_link p),
       D := extend (D p),
       volume := extend (volume p)\<rparr>"

text \<open>
  Modelled from the spec: \<^verbatim>\<open>add_parcels(specs, at_time)\<close> of section 4.2, which the
  notebook calls as \<^verbatim>\<open>parcels.add_item\<close>.  The new rows are appended after the rows
  of the table, and each history is backfilled with the null marker so that it has one
  entry per recorded time, the given one at \<open>at_time\<close>.  A time the table has not
  recorded is out of range.
\<close>

definition backfill :: "nat \<Rightarrow> nat \<Rightarrow> 'a option list \<Rightarrow> 'a option list" where
  "backfill n at_time col =
     replicate at_time None @ col @ replicate (n - at_time - length col) None"

definition number_of_times :: "nat \<Rightarrow> parcel list \<Rightarrow> nat" where
  "number_of_times at_time ps =
     (case ps of [] \<Rightarrow> Suc at_time | p # _ \<Rightarrow> length (element_id p))"

definition add_item :: "nat \<Rightarrow> parcel list \<Rightarrow> parcel list \<Rightarrow> error + parcel list" where
  "add_item at_time new ps =
     (let n = number_of_times at_time ps in
      if n \<le> at_time then Inl OutOfRangeError
      else Inr (ps @ map (\<lambda>q.
                  q\<lparr>grid_element := backfill n at_time (grid_element q),
                    element_id := backfill n at_time (element_id q),
                    time_arrival_in_link := backfill n at_time (time_arrival_in_link q),
                    active_layer := backfill n at_time (active_layer q),
                    location_in_link := backfill n at_time (location_in_link q),
                    D := backfill n at_time (D q),
                    volume := backfill n at_time (volume q)\<rparr>) new))"

subsection \<open>One transport step\<close>

text \<open>
  Modelled from the spec: the entry an advance writes at the new time.  A parcel that
  changed reach arrives there at the new time index; one that left the network is marked
  with the sentinel.
\<close>

definition place :: "policy \<Rightarrow> nat \<Rightarrow> int \<Rightarrow> advance \<Rightarrow> parcel \<Rightarrow> parcel" where
  "place pol tidx r a q =
     (case a of
        Landed r' x' h \<Rightarrow>
          q\<lparr>element_id := set_last (Some r') (element_id q),
            location_in_link := set_last (Some x') (location_in_link q),
            time_arrival_in_link :=
              (if r' = r then time_arrival_in_link q
               else set_last (Some (real tidx)) (time_arrival_in_link q))\<rparr>
      | Left_network h \<Rightarrow>
          q\<lparr>element_id := set_last (Some OUT_OF_NETWORK) (element_id q),
            location_in_link := set_last (exit_location pol) (location_in_link q),
            time_arrival_in_link := set_last (Some (real tidx)) (time_arrival_in_link q)\<rparr>)"

text \<open>
  Modelled from the spec: the state of a parcel at the most recent time, read from its
  history (section 3): reach, fractional position, grain size and volume.  A parcel with
  a null entry is not in the network.
\<close>

definition current :: "parcel \<Rightarrow> (int \<times> real \<times> real \<times> real) option" where
  "current p =
     (case latest (element_id p) of
        None \<Rightarrow> None
      | Some r \<Rightarrow>
          (case latest (location_in_link p) of
             None \<Rightarrow> None
           | Some x \<Rightarrow>
               (case latest (D p) of
                  None \<Rightarrow> None
                | Some gs \<Rightarrow>
                    (case latest (volume p) of
                       None \<Rightarrow> None
                     | Some v \<Rightarrow> Some (r, x, gs, v)))))"

text \<open>
  Modelled from the spec: steps 3 and 4, the travel distance of a parcel of grain size
  \<open>gs\<close> and density \<open>rho\<close> on reach \<open>g\<close>, from the transport relation.
\<close>

definition distance :: "policy \<Rightarrow> reach \<Rightarrow> real \<Rightarrow> real \<Rightarrow> int \<Rightarrow> real" where
  "distance pol g gs rho dt =
     travel_distance pol gs (shear_stress g) (critical_shear_stress pol gs rho) dt"

text \<open>
  Modelled from the spec: steps 2 to 5 of section 4.4 for parcel \<open>i\<close>, on the state
  frozen at the start of the step.  The history is extended by a copy of the previous
  entry.  A parcel that is out of the network, or has a null entry, is left at that.  A
  parcel outside the active layer, or whose shear stress does not exceed the critical
  threshold, keeps its position.  A mobile parcel travels its distance through the
  cascade and is abraded over that distance.
\<close>

definition move_parcel ::
  "policy \<Rightarrow> reach list \<Rightarrow> parcel list \<Rightarrow> int \<Rightarrow> nat \<Rightarrow> nat \<Rightarrow> parcel \<Rightarrow> error + parcel" where
  "move_parcel pol topo ps dt tidx i p =
     (case current p of
        None \<Rightarrow> Inr (append_timestep p)
      | Some (r, x, gs, v) \<Rightarrow>
          if r = OUT_OF_NETWORK then Inr (append_timestep p)
          else
            (case geometry topo r of
               Inl e \<Rightarrow> Inl e
             | Inr g \<Rightarrow>
                 if \<not> active_layer_member pol topo ps i
                 then Inr ((append_timestep p)
                        \<lparr>active_layer := set_last (Some 0) (active_layer (append_timestep p))\<rparr>)
                 else if shear_stress g \<le> critical_shear_stress pol gs (density p)
                 then Inr ((append_timestep p)
                        \<lparr>active_layer := set_last (Some 1) (active_layer (append_timestep p))\<rparr>)
                 else
                   (case cascade topo (max_cascade_hops pol) 0 r x
                           (distance pol g gs (density p) dt) of
                      Inl e \<Rightarrow> Inl e
                    | Inr a \<Rightarrow>
                        Inr (place pol tidx r a
                              ((append_timestep p)
                                 \<lparr>active_layer :=
                                    set_last (Some 1) (active_layer (append_timestep p)),
                                  volume :=
                                    set_last
                                      (Some (abraded_volume pol v (abrasion_rate p)
                                               (distance pol g gs (density p) dt)))
                                      (volume (append_timestep p))\<rparr>)))))"

text \<open>The first error among the results, or all the values.\<close>

fun collect :: "(error + 'a) list \<Rightarrow> error + 'a list" where
  "collect [] = Inr []"
| "collect (Inl e # rs) = Inl e"
| "collect (Inr x # rs) = (case collect rs of Inl e \<Rightarrow> Inl e | Inr xs \<Rightarrow> Inr (x # xs))"

definition move_all ::
  "policy \<Rightarrow> reach list \<Rightarrow> parcel list \<Rightarrow> int \<Rightarrow> nat \<Rightarrow> error + parcel list" where
  "move_all pol topo ps dt tidx =
     collect (map (\<lambda>(i, p). move_parcel pol topo ps dt tidx i p) (enumerate 0 ps))"

text \<open>
  Modelled from the spec: step 6 changes the bed elevation, and with it only the slope
  of a reach (section 4.1).
\<close>

definition update_slopes :: "policy \<Rightarrow> reach list \<Rightarrow> parcel list \<Rightarrow> reach list" where
  "update_slopes pol topo ps =
     map (\<lambda>(k, g). g\<lparr>channel_slope := bed_slope pol topo ps k\<rparr>) (enumerate 0 topo)"

text \<open>
  Modelled from the spec: \<^verbatim>\<open>run_one_step(dt)\<close>.  A negative flow depth or shear
  stress is an \<^verbatim>\<open>InvalidHydraulicStateError\<close>; an error of any parcel's advance is
  the step's; otherwise the step returns the new table, the new slopes and the next time
  index.  The cumulative travel distance of step 7 is kept by the engine, outside the
  table, and is left out.
\<close>

definition run_one_step :: "policy \<Rightarrow> int \<Rightarrow> reach list model \<Rightarrow> error + reach list model" where
  "run_one_step pol dt m =
     (if \<exists>g\<in>set (grid m). flow_depth g < 0 \<or> shear_stress g < 0
      then Inl InvalidHydraulicStateError
      else
        (case move_all pol (grid m) (parcels m) dt (Suc (nst_time_idx m)) of
           Inl e \<Rightarrow> Inl e
         | Inr ps' \<Rightarrow>
             Inr (m\<lparr>grid := update_slopes pol (grid m) ps',
                    nst_time_idx := Suc (nst_time_idx m),
                    parcels := ps'\<rparr>)))"

subsection \<open>What the claims speak of\<close>

text \<open>
  At the most recent time a parcel is out of the network, or its fractional position
  lies in \<open>[0, 1]\<close>.
\<close>

definition position_ok :: "parcel \<Rightarrow> bool" where
  "position_ok p =
     (exited p \<or>
      (case latest (location_in_link p) of None \<Rightarrow> False | Some x \<Rightarrow> 0 \<le> x \<and> x \<le> 1))"

text \<open>
  A table that has recorded the times \<open>0\<close> to \<open>tidx\<close> in every variable of every
  row, and in which every parcel is placed so.
\<close>

definition table_ok :: "nat \<Rightarrow> parcel list \<Rightarrow> bool" where
  "table_ok tidx ps = (\<forall>p\<in>set ps. aligned (Suc tidx) p \<and> position_ok p)"

text \<open>
  Every reach of the network drains into a reach of the network or out of it.
\<close>

definition wf_topology :: "reach list \<Rightarrow> bool" where
  "wf_topology topo =
     (\<forall>g\<in>set topo. downstream g = OUT_OF_NETWORK \<or>
        (0 \<le> downstream g \<and> downstream g < int (length topo)))"

text \<open>Every variable of the row holds the null marker at the first \<open>k\<close> times.\<close>

definition born_at :: "nat \<Rightarrow> parcel \<Rightarrow> bool" where
  "born_at k p =
     (take k (grid_element p) = replicate k None \<and>
      take k (element_id p) = replicate k None \<and>
      take k (time_arrival_in_link p) = replicate k None \<and>
      take k (active_layer p) = replicate k None \<and>
      take k (location_in_link p) = replicate k None \<and>
      take k (D p) = replicate k None \<and>
      take k (volume p) = replicate k None)"

text \<open>
  The reach that lies \<open>h\<close> hops downstream of reach \<open>r\<close>, if the downstream map
  leads that far through reaches of the network.
\<close>

fun reach_after :: "reach list \<Rightarrow> nat \<Rightarrow> int \<Rightarrow> int option" where
  "reach_after topo 0 r = Some r"
| "reach_after topo (Suc h) r =
     (case geometry topo r of Inl e \<Rightarrow> None | Inr g \<Rightarrow> reach_after topo h (downstream g))"

text \<open>
  The length of the first \<open>h\<close> reaches of the walk downstream from reach \<open>r\<close>, the
  reach \<open>r\<close> included: the distance from the upstream end of \<open>r\<close> to the upstream
  end of the reach \<open>h\<close> hops further down.
\<close>

fun length_of_path :: "reach list \<Rightarrow> nat \<Rightarrow> int \<Rightarrow> real" where
  "length_of_path topo 0 r = 0"
| "length_of_path topo (Suc h) r =
     (case geometry topo r of
        Inl e \<Rightarrow> 0
      | Inr g \<Rightarrow> reach_length g + length_of_path topo h (downstream g))"

section \<open>Concrete tables and a concrete flume\<close>

text \<open>A parcel of the initial bed that has left the network, with three recorded times.\<close>

definition exited_bed_parcel :: parcel where
  "exited_bed_parcel =
     \<lparr>starting_link = 14, source = ''initial_bed_sed'', density = 2650, abrasion_rate = 0,
      grid_element = [Some ''link'', Some ''link'', Some ''link''],
      element_id = [Some 14, Some 14, Some (- 2)],
      time_arrival_in_link = [Some 0, Some 0, Some 2],
      active_layer = [Some 1, Some 1, Some 1],
      location_in_link = [Some (1 / 2), Some (3 / 4), Some 1],
      D = [Some (2 / 25), Some (2 / 25), Some (2 / 25)],
      volume = [Some 2, Some 2, Some 2]\<rparr>"

text \<open>A pulse parcel that has left the network, and a bed parcel still on reach 3.\<close>

definition exited_pulse_parcel :: parcel where
  "exited_pulse_parcel = exited_bed_parcel\<lparr>starting_link := 5, source := ''pulse''\<rparr>"

definition resident_bed_parcel :: parcel where
  "resident_bed_parcel =
     exited_bed_parcel\<lparr>starting_link := 3,
       element_id := [Some 3, Some 3, Some 3],
       location_in_link := [Some (1 / 4), Some (1 / 4), Some (1 / 2)]\<rparr>"

text \<open>
  The notebook's flume: 15 links of 100 m in series, 5 m wide, with slope 0.01 and flow
  depth 1 m, each draining into the next and the last one out of the network.
\<close>

definition flume :: "reach list" where
  "flume =
     map (\<lambda>i. \<lparr>reach_length = 100, channel_width = 5, channel_slope = 1 / 100, flow_depth = 1,
               downstream = (if Suc i = 15 then OUT_OF_NETWORK else int (Suc i))\<rparr>)
       [0..<15]"

text \<open>
  A policy for the examples: every parcel is in the active layer, the critical shear
  stress is 50 Pa, a mobile parcel travels 225 m per step, abrasion removes the fraction
  rate times distance of the volume, and the slopes stay as they are.
\<close>

definition flume_policy :: policy where
  "flume_policy =
     \<lparr>max_cascade_hops = 20, exit_location = None,
      active_layer_member = (\<lambda>topo ps i. True),
      critical_shear_stress = (\<lambda>gs rho. 50),
      travel_distance = (\<lambda>gs tau crit dt. 225),
      abraded_volume = (\<lambda>v rate d. max 0 (v - rate * d * v)),
      bed_slope = (\<lambda>topo ps k. 1 / 100)\<rparr>"

text \<open>The three parcels above on the flume, after two steps.\<close>

definition three_parcels :: "reach list model" where
  "three_parcels =
     \<lparr>grid = flume, nst_time_idx = 2,
      parcels = [exited_bed_parcel, exited_pulse_parcel, resident_bed_parcel]\<rparr>"

text \<open>Two reaches of length zero that drain into each other.\<close>

definition zero_cycle :: "reach list" where
  "zero_cycle =
     [\<lparr>reach_length = 0, channel_width = 5, channel_slope = 1 / 100, flow_depth = 1,
       downstream = 1\<rparr>,
      \<lparr>reach_length = 0, channel_width = 5, channel_slope = 1 / 100, flow_depth = 1,
       downstream = 0\<rparr>]"

text \<open>A bed parcel that has rested on reach 3 for the times 0 to 50.\<close>

definition resting_parcel :: parcel where
  "resting_parcel =
     \<lparr>starting_link = 3, source = ''initial_bed_sed'', density = 2650, abrasion_rate = 0,
      grid_element = replicate 51 (Some ''link''),
      element_id = replicate 51 (Some 3),
      time_arrival_in_link = replicate 51 (Some 0),
      active_layer = replicate 51 (Some 0),
      location_in_link = replicate 51 (Some (1 / 4)),
      D = replicate 51 (Some (2 / 25)),
      volume = replicate 51 (Some 2)\<rparr>"

section \<open>Properties of the notebook's blocks\<close>

lemma length_assign_starting_link:
  "length msk = length ps \<Longrightarrow> length (assign_starting_link msk v ps) = length ps"
  by (simp add: assign_starting_link_def)

lemma length_assign_location_in_link:
  "length msk = length ps \<Longrightarrow> length (assign_location_in_link msk v ps) = length ps"
  by (simp add: assign_location_in_link_def)

lemma length_assign_element_id:
  "length msk = length ps \<Longrightarrow> length (assign_element_id msk v ps) = length ps"
  by (simp add: assign_element_id_def)

lemma nth_assign_starting_link:
  "length msk = length ps \<Longrightarrow> i < length ps \<Longrightarrow>
   assign_starting_link msk v ps ! i =
     (if msk ! i then (ps ! i)\<lparr>starting_link := v\<rparr> else ps ! i)"
  by (simp add: assign_starting_link_def)

lemma nth_assign_location_in_link:
  "length msk = length ps \<Longrightarrow> i < length ps \<Longrightarrow>
   assign_location_in_link msk v ps ! i =
     (if msk ! i
      then (ps ! i)\<lparr>location_in_link := set_last (Some v) (location_in_link (ps ! i))\<rparr>
      else ps ! i)"
  by (simp add: assign_location_in_link_def)

lemma nth_assign_element_id:
  "length msk = length ps \<Longrightarrow> i < length ps \<Longrightarrow>
   assign_element_id msk v ps ! i =
     (if msk ! i
      then (ps ! i)\<lparr>element_id := set_last (Some v) (element_id (ps ! i))\<rparr>
      else ps ! i)"
  by (simp add: assign_element_id_def)

lemma length_set_last: "length (set_last v xs) = length xs"
  by (simp add: set_last_def)

lemma butlast_set_last: "butlast (set_last v xs) = butlast xs"
  by (cases xs rule: rev_cases) (simp_all add: set_last_def)

lemma last_set_last: "xs \<noteq> [] \<Longrightarrow> last (set_last v xs) = v"
  by (cases xs rule: rev_cases) (simp_all add: set_last_def)

lemma py_index_last: "xs \<noteq> [] \<Longrightarrow> py_index xs (- 1) = Inr (last xs)"
  by (cases xs rule: rev_cases) (simp_all add: py_index_def Let_def)

lemma last_column_Inr:
  "last_column rows = Inr col \<Longrightarrow> [] \<notin> set rows \<and> col = map last rows"
  by (simp add: last_column_def split: if_splits)

lemma mask_exited_Inr:
  assumes "mask_exited ps = Inr msk"
  shows "length msk = length ps"
    and "\<forall>p\<in>set ps. element_id p \<noteq> []"
    and "\<forall>i<length ps. msk ! i = exited (ps ! i)"
proof -
  from assms obtain col where col: "last_column (map element_id ps) = Inr col"
    and msk: "msk = map (\<lambda>v. v = Some OUT_OF_NETWORK) col"
    by (auto simp: mask_exited_def split: sum.splits)
  from last_column_Inr [OF col]
  have ne: "[] \<notin> set (map element_id ps)" and c: "col = map last (map element_id ps)"
    by simp_all
  show "length msk = length ps" using msk c by simp
  have nn: "\<forall>p\<in>set ps. element_id p \<noteq> []" using ne by force
  show "\<forall>p\<in>set ps. element_id p \<noteq> []" by (rule nn)
  show "\<forall>i<length ps. msk ! i = exited (ps ! i)"
  proof (intro allI impI)
    fix i assume i: "i < length ps"
    then have "element_id (ps ! i) \<noteq> []" using nn by simp
    then show "msk ! i = exited (ps ! i)"
      using msk c i by (simp add: exited_def latest_def)
  qed
qed

lemma mask_exited_total:
  assumes "\<forall>p\<in>set ps. element_id p \<noteq> []"
  shows "\<exists>msk. mask_exited ps = Inr msk"
proof -
  from assms have "\<not> (\<exists>r\<in>set (map element_id ps). r = [])" by auto
  then show ?thesis by (simp add: mask_exited_def last_column_def)
qed

lemma aligned_nonempty:
  "0 < n \<Longrightarrow> aligned n p \<Longrightarrow> element_id p \<noteq> [] \<and> location_in_link p \<noteq> []"
  by (auto simp: aligned_def)

lemma relocate_nth:
  assumes "relocate msk r x ps = Inr ps'" and "j < length ps"
  shows "ps' ! j =
      (if msk ! j
       then (ps ! j)\<lparr>element_id := set_last (Some r) (element_id (ps ! j)),
                      location_in_link := set_last (Some x) (location_in_link (ps ! j))\<rparr>
       else ps ! j)"
proof -
  from assms(1) have len: "length msk = length ps"
    and ps': "ps' = assign_element_id msk r (assign_location_in_link msk x ps)"
    by (simp_all add: relocate_def split: if_splits)
  show ?thesis
    using len assms(2)
    by (simp add: ps' nth_assign_element_id nth_assign_location_in_link
        length_assign_location_in_link)
qed

lemma set_last_eq_Nil: "(set_last v xs = []) = (xs = [])"
  by (simp add: set_last_def)

lemma relocate_length:
  "relocate msk r x ps = Inr ps' \<Longrightarrow> length ps' = length ps"
  by (auto simp: relocate_def length_assign_element_id length_assign_location_in_link
      split: if_splits)

text \<open>
  Claim C6.  Relocating a parcel to reach \<open>r\<close>, position \<open>x\<close> between steps and
  reading its position at the most recent column (\<^verbatim>\<open>[:, -1]\<close>) returns exactly
  \<open>(r, x)\<close>.  The relocation writes the last column only: every variable keeps its
  length, every earlier column of reach and position is unchanged, no other variable
  changes, and a parcel outside the mask is untouched.  The table has at least one
  recorded time (\<open>0 < n\<close>), as every table of the notebook has.  The recycling
  blocks are this relocation with reach 1 and position 0, once the starting link is
  marked (\<open>recycle_exited_relocate\<close> and \<open>recycle_initial_bed_relocate\<close> below).
\<close>

theorem relocate_roundtrip:
  assumes "length msk = length ps" and "0 < n" and "\<forall>p\<in>set ps. aligned n p"
    and "i < length ps" and "msk ! i"
  shows "\<exists>ps'. relocate msk r x ps = Inr ps' \<and> length ps' = length ps \<and>
           position_at ps' i (- 1) = Inr (Some r, Some x) \<and>
           (\<forall>j<length ps.
              length (element_id (ps' ! j)) = length (element_id (ps ! j)) \<and>
              length (location_in_link (ps' ! j)) = length (location_in_link (ps ! j)) \<and>
              butlast (element_id (ps' ! j)) = butlast (element_id (ps ! j)) \<and>
              butlast (location_in_link (ps' ! j)) = butlast (location_in_link (ps ! j)) \<and>
              ps' ! j = (ps ! j)\<lparr>element_id := element_id (ps' ! j),
                                  location_in_link := location_in_link (ps' ! j)\<rparr> \<and>
              (\<not> msk ! j \<longrightarrow> ps' ! j = ps ! j))"
proof -
  have ne: "\<not> (\<exists>p\<in>set ps. location_in_link p = [] \<or> element_id p = [])"
    using assms(2,3) aligned_nonempty by blast
  then obtain ps' where r: "relocate msk r x ps = Inr ps'"
    using assms(1) by (simp add: relocate_def)
  have len: "length ps' = length ps" by (rule relocate_length [OF r])
  have pi: "ps ! i \<in> set ps" using assms(4) by simp
  then have nei: "element_id (ps ! i) \<noteq> []" "location_in_link (ps ! i) \<noteq> []"
    using ne by auto
  have "ps' ! i = (ps ! i)\<lparr>element_id := set_last (Some r) (element_id (ps ! i)),
                      location_in_link := set_last (Some x) (location_in_link (ps ! i))\<rparr>"
    using relocate_nth [OF r assms(4)] assms(5) by simp
  then have pos: "position_at ps' i (- 1) = Inr (Some r, Some x)"
    using nei assms(4) len
    by (simp add: position_at_def py_index_last last_set_last set_last_eq_Nil)
  have frame: "\<forall>j<length ps.
              length (element_id (ps' ! j)) = length (element_id (ps ! j)) \<and>
              length (location_in_link (ps' ! j)) = length (location_in_link (ps ! j)) \<and>
              butlast (element_id (ps' ! j)) = butlast (element_id (ps ! j)) \<and>
              butlast (location_in_link (ps' ! j)) = butlast (location_in_link (ps ! j)) \<and>
              ps' ! j = (ps ! j)\<lparr>element_id := element_id (ps' ! j),
                                  location_in_link := location_in_link (ps' ! j)\<rparr> \<and>
              (\<not> msk ! j \<longrightarrow> ps' ! j = ps ! j)"
  proof (intro allI impI)
    fix j assume j: "j < length ps"
    show "length (element_id (ps' ! j)) = length (element_id (ps ! j)) \<and>
              length (location_in_link (ps' ! j)) = length (location_in_link (ps ! j)) \<and>
              butlast (element_id (ps' ! j)) = butlast (element_id (ps ! j)) \<and>
              butlast (location_in_link (ps' ! j)) = butlast (location_in_link (ps ! j)) \<and>
              ps' ! j = (ps ! j)\<lparr>element_id := element_id (ps' ! j),
                                  location_in_link := location_in_link (ps' ! j)\<rparr> \<and>
              (\<not> msk ! j \<longrightarrow> ps' ! j = ps ! j)"
      using relocate_nth [OF r j]
      by (simp add: length_set_last butlast_set_last)
  qed
  show ?thesis using r len pos frame by blast
qed

theorem relocate_roundtrip_witness:
  "\<exists>ps'. relocate [False, True] 7 (2 / 5) [exited_bed_parcel, resident_bed_parcel] = Inr ps' \<and>
     position_at ps' 1 (- 1) = Inr (Some 7, Some (2 / 5)) \<and>
     butlast (element_id (ps' ! 1)) = [Some 3, Some 3] \<and>
     butlast (location_in_link (ps' ! 1)) = [Some (1 / 4), Some (1 / 4)] \<and>
     ps' ! 0 = exited_bed_parcel"
  using relocate_roundtrip [of "[False, True]" "[exited_bed_parcel, resident_bed_parcel]" 3 1 7 "2 / 5"]
  by (auto simp: aligned_def exited_bed_parcel_def resident_bed_parcel_def)

lemma recycle_exited_nth:
  assumes "recycle_exited ps = Inr ps'" and "i < length ps"
  shows "ps' ! i =
      (if exited (ps ! i)
       then (ps ! i)\<lparr>starting_link := OUT_OF_NETWORK,
                      location_in_link := set_last (Some 0) (location_in_link (ps ! i)),
                      element_id := set_last (Some 1) (element_id (ps ! i))\<rparr>
       else ps ! i)"
proof -
  from assms(1) obtain msk where m: "mask_exited ps = Inr msk"
    and ps': "ps' = assign_element_id msk 1
                (assign_location_in_link msk 0 (assign_starting_link msk OUT_OF_NETWORK ps))"
    by (auto simp: recycle_exited_def split: sum.splits)
  note len = mask_exited_Inr(1) [OF m]
  have mi: "msk ! i = (exited (ps ! i))"
    using mask_exited_Inr(3) [OF m] assms(2) by simp
  show ?thesis
    using len assms(2) mi
    by (simp add: ps' nth_assign_element_id nth_assign_location_in_link
        nth_assign_starting_link length_assign_location_in_link length_assign_starting_link)
qed

lemma recycle_exited_length:
  assumes "recycle_exited ps = Inr ps'"
  shows "length ps' = length ps"
proof -
  from assms(1) obtain msk where m: "mask_exited ps = Inr msk"
    and ps': "ps' = assign_element_id msk 1
                (assign_location_in_link msk 0 (assign_starting_link msk OUT_OF_NETWORK ps))"
    by (auto simp: recycle_exited_def split: sum.splits)
  show ?thesis using mask_exited_Inr(1) [OF m]
    by (simp add: ps' length_assign_element_id length_assign_location_in_link
        length_assign_starting_link)
qed

lemma length_mask_and: "length (mask_and a b) = min (length a) (length b)"
  by (simp add: mask_and_def)

lemma nth_mask_and:
  "i < length a \<Longrightarrow> i < length b \<Longrightarrow> mask_and a b ! i = (a ! i \<and> b ! i)"
  by (simp add: mask_and_def)

lemma recycle_initial_bed_nth:
  assumes "recycle_initial_bed ps = Inr ps'" and "i < length ps"
  shows "ps' ! i =
      (if exited (ps ! i) \<and> source (ps ! i) = ''initial_bed_sed''
       then (ps ! i)\<lparr>starting_link := - 2,
                      location_in_link := set_last (Some 0) (location_in_link (ps ! i)),
                      element_id := set_last (Some 1) (element_id (ps ! i))\<rparr>
       else ps ! i)"
proof -
  from assms(1) obtain msk where m: "mask_exited ps = Inr msk"
    and ps': "ps' = assign_element_id (mask_and msk (mask_initial_bed ps)) 1
                (assign_location_in_link (mask_and msk (mask_initial_bed ps)) 0
                  (assign_starting_link (mask_and msk (mask_initial_bed ps)) (- 2) ps))"
    by (auto simp: recycle_initial_bed_def Let_def split: sum.splits)
  note len = mask_exited_Inr(1) [OF m]
  have lb: "length (mask_and msk (mask_initial_bed ps)) = length ps"
    using len by (simp add: length_mask_and mask_initial_bed_def)
  have mi: "mask_and msk (mask_initial_bed ps) ! i =
      (exited (ps ! i) \<and> source (ps ! i) = ''initial_bed_sed'')"
    using mask_exited_Inr(3) [OF m] assms(2) len
    by (simp add: nth_mask_and mask_initial_bed_def)
  show ?thesis
    using lb assms(2) mi
    by (simp add: ps' nth_assign_element_id nth_assign_location_in_link
        nth_assign_starting_link length_assign_location_in_link length_assign_starting_link)
qed

lemma recycle_initial_bed_length:
  assumes "recycle_initial_bed ps = Inr ps'"
  shows "length ps' = length ps"
proof -
  from assms(1) obtain msk where m: "mask_exited ps = Inr msk"
    and ps': "ps' = assign_element_id (mask_and msk (mask_initial_bed ps)) 1
                (assign_location_in_link (mask_and msk (mask_initial_bed ps)) 0
                  (assign_starting_link (mask_and msk (mask_initial_bed ps)) (- 2) ps))"
    by (auto simp: recycle_initial_bed_def Let_def split: sum.splits)
  have lb: "length (mask_and msk (mask_initial_bed ps)) = length ps"
    using mask_exited_Inr(1) [OF m] by (simp add: length_mask_and mask_initial_bed_def)
  show ?thesis using lb
    by (simp add: ps' length_assign_element_id length_assign_location_in_link
        length_assign_starting_link)
qed

lemma recycle_exited_example:
  "recycle_exited [exited_bed_parcel, exited_pulse_parcel, resident_bed_parcel] =
     Inr [exited_bed_parcel\<lparr>starting_link := - 2,
            location_in_link := [Some (1 / 2), Some (3 / 4), Some 0],
            element_id := [Some 14, Some 14, Some 1]\<rparr>,
          exited_pulse_parcel\<lparr>starting_link := - 2,
            location_in_link := [Some (1 / 2), Some (3 / 4), Some 0],
            element_id := [Some 14, Some 14, Some 1]\<rparr>,
          resident_bed_parcel]"
  by (simp add: recycle_exited_def mask_exited_def last_column_def assign_element_id_def
      assign_location_in_link_def assign_starting_link_def set_last_def
      exited_bed_parcel_def exited_pulse_parcel_def resident_bed_parcel_def
      OUT_OF_NETWORK_def BAD_INDEX_def)

lemma recycle_initial_bed_example:
  "recycle_initial_bed [exited_bed_parcel, exited_pulse_parcel, resident_bed_parcel] =
     Inr [exited_bed_parcel\<lparr>starting_link := - 2,
            location_in_link := [Some (1 / 2), Some (3 / 4), Some 0],
            element_id := [Some 14, Some 14, Some 1]\<rparr>,
          exited_pulse_parcel,
          resident_bed_parcel]"
  by (simp add: recycle_initial_bed_def mask_exited_def last_column_def assign_element_id_def
      assign_location_in_link_def assign_starting_link_def set_last_def mask_and_def
      mask_initial_bed_def
      exited_bed_parcel_def exited_pulse_parcel_def resident_bed_parcel_def
      OUT_OF_NETWORK_def BAD_INDEX_def)

subsection \<open>The recycling blocks relocate\<close>

lemma relocate_after_starting_link:
  assumes "length msk = length ps"
    and "\<forall>p\<in>set ps. location_in_link p \<noteq> [] \<and> element_id p \<noteq> []"
  shows "relocate msk r x (assign_starting_link msk v ps) =
     Inr (assign_element_id msk r (assign_location_in_link msk x (assign_starting_link msk v ps)))"
proof -
  let ?qs = "assign_starting_link msk v ps"
  have l: "length ?qs = length ps" using assms(1) by (simp add: length_assign_starting_link)
  have "\<not> (\<exists>p\<in>set ?qs. location_in_link p = [] \<or> element_id p = [])"
  proof
    assume "\<exists>p\<in>set ?qs. location_in_link p = [] \<or> element_id p = []"
    then obtain i where i: "i < length ps"
      and e: "location_in_link (?qs ! i) = [] \<or> element_id (?qs ! i) = []"
      using l by (auto simp: in_set_conv_nth)
    from i have "ps ! i \<in> set ps" by simp
    with assms(2) have "location_in_link (ps ! i) \<noteq> []" "element_id (ps ! i) \<noteq> []"
      by auto
    with e i assms(1) show False by (simp add: nth_assign_starting_link split: if_splits)
  qed
  then show ?thesis using assms(1) l by (simp add: relocate_def)
qed

lemma recycle_exited_relocate:
  assumes "mask_exited ps = Inr msk" and "\<forall>p\<in>set ps. location_in_link p \<noteq> []"
  shows "recycle_exited ps = relocate msk 1 0 (assign_starting_link msk OUT_OF_NETWORK ps)"
proof -
  from mask_exited_Inr(2) [OF assms(1)] assms(2)
  have "\<forall>p\<in>set ps. location_in_link p \<noteq> [] \<and> element_id p \<noteq> []" by simp
  from relocate_after_starting_link [OF mask_exited_Inr(1) [OF assms(1)] this] assms(1)
  show ?thesis by (simp add: recycle_exited_def)
qed

lemma recycle_initial_bed_relocate:
  assumes "mask_exited ps = Inr msk" and "\<forall>p\<in>set ps. location_in_link p \<noteq> []"
  shows "recycle_initial_bed ps =
     relocate (mask_and msk (mask_initial_bed ps)) 1 0
       (assign_starting_link (mask_and msk (mask_initial_bed ps)) (- 2) ps)"
proof -
  from mask_exited_Inr(2) [OF assms(1)] assms(2)
  have ne: "\<forall>p\<in>set ps. location_in_link p \<noteq> [] \<and> element_id p \<noteq> []" by simp
  have "length (mask_and msk (mask_initial_bed ps)) = length ps"
    using mask_exited_Inr(1) [OF assms(1)] by (simp add: length_mask_and mask_initial_bed_def)
  from relocate_after_starting_link [OF this ne] assms(1)
  show ?thesis by (simp add: recycle_initial_bed_def Let_def)
qed

section \<open>Properties of the step and of the store\<close>

lemma latest_extend: "latest (extend xs) = latest xs"
  by (simp add: latest_def extend_def)

lemma length_extend: "length (extend xs) = Suc (length xs)"
  by (simp add: extend_def)

lemma exited_append_timestep: "exited (append_timestep p) = exited p"
  by (simp add: exited_def append_timestep_def latest_extend)

lemma collect_Inr:
  "collect rs = Inr xs \<Longrightarrow> length xs = length rs \<and> (\<forall>i<length rs. rs ! i = Inr (xs ! i))"
proof (induction rs arbitrary: xs)
  case Nil
  then show ?case by simp
next
  case (Cons r rs)
  show ?case
  proof (cases r)
    case (Inl e)
    with Cons.prems show ?thesis by simp
  next
    case (Inr x)
    with Cons.prems obtain ys where ys: "collect rs = Inr ys" and xs: "xs = x # ys"
      by (auto split: sum.splits)
    from Cons.IH [OF ys] have l: "length ys = length rs"
      and n: "\<forall>i<length rs. rs ! i = Inr (ys ! i)" by simp_all
    show ?thesis
    proof (intro conjI allI impI)
      show "length xs = length (r # rs)" using l xs by simp
      fix i assume "i < length (r # rs)"
      then show "(r # rs) ! i = Inr (xs ! i)"
        using n xs Inr by (cases i) simp_all
    qed
  qed
qed

lemma move_all_Inr:
  assumes "move_all pol topo ps dt tidx = Inr ps'"
  shows "length ps' = length ps"
    and "\<forall>i<length ps. move_parcel pol topo ps dt tidx i (ps ! i) = Inr (ps' ! i)"
proof -
  note c = collect_Inr [OF assms [unfolded move_all_def]]
  from c show "length ps' = length ps" by simp
  show "\<forall>i<length ps. move_parcel pol topo ps dt tidx i (ps ! i) = Inr (ps' ! i)"
  proof (intro allI impI)
    fix i assume i: "i < length ps"
    with c have "map (\<lambda>(i, p). move_parcel pol topo ps dt tidx i p) (enumerate 0 ps) ! i
        = Inr (ps' ! i)" by simp
    then show "move_parcel pol topo ps dt tidx i (ps ! i) = Inr (ps' ! i)"
      using i by (simp add: nth_enumerate_eq)
  qed
qed

lemma move_parcel_cases:
  assumes "move_parcel pol topo ps dt tidx i p = Inr p'"
  obtains
    (rest) "current p = None \<or> (\<exists>x gs v. current p = Some (OUT_OF_NETWORK, x, gs, v))"
      "p' = append_timestep p"
  | (still) r x gs v g b where "current p = Some (r, x, gs, v)" "r \<noteq> OUT_OF_NETWORK"
      "geometry topo r = Inr g"
      "p' = (append_timestep p)
              \<lparr>active_layer := set_last (Some b) (active_layer (append_timestep p))\<rparr>"
  | (moved) r x gs v g a where "current p = Some (r, x, gs, v)" "r \<noteq> OUT_OF_NETWORK"
      "geometry topo r = Inr g"
      "cascade topo (max_cascade_hops pol) 0 r x (distance pol g gs (density p) dt) = Inr a"
      "p' = place pol tidx r a
              ((append_timestep p)
                 \<lparr>active_layer := set_last (Some 1) (active_layer (append_timestep p)),
                  volume := set_last
                     (Some (abraded_volume pol v (abrasion_rate p)
                              (distance pol g gs (density p) dt)))
                     (volume (append_timestep p))\<rparr>)"
proof (cases "current p")
  case None
  with assms have "p' = append_timestep p" by (simp add: move_parcel_def)
  with None rest show ?thesis by simp
next
  case (Some c)
  obtain r x gs v where c: "c = (r, x, gs, v)" by (cases c) auto
  show ?thesis
  proof (cases "r = OUT_OF_NETWORK")
    case True
    with assms Some c have "p' = append_timestep p" by (simp add: move_parcel_def)
    with Some c True rest show ?thesis by simp
  next
    case False
    show ?thesis
    proof (cases "geometry topo r")
      case (Inl e)
      with assms Some c False show ?thesis by (simp add: move_parcel_def)
    next
      case (Inr g)
      show ?thesis
      proof (cases "active_layer_member pol topo ps i")
        case na: False
        with assms Some c False Inr
        have "p' = (append_timestep p)
              \<lparr>active_layer := set_last (Some 0) (active_layer (append_timestep p))\<rparr>"
          by (simp add: move_parcel_def)
        with Some c False Inr still show ?thesis by simp
      next
        case act: True
        show ?thesis
        proof (cases "shear_stress g \<le> critical_shear_stress pol gs (density p)")
          case True
          with assms Some c False Inr act
          have "p' = (append_timestep p)
              \<lparr>active_layer := set_last (Some 1) (active_layer (append_timestep p))\<rparr>"
            by (simp add: move_parcel_def)
          with Some c False Inr still show ?thesis by simp
        next
          case mob: False
          show ?thesis
          proof (cases "cascade topo (max_cascade_hops pol) 0 r x (distance pol g gs (density p) dt)")
            case (Inl e)
            with assms Some c False Inr act mob show ?thesis by (simp add: move_parcel_def)
          next
            case ca: (Inr a)
            with assms Some c False Inr act mob
            have "p' = place pol tidx r a
              ((append_timestep p)
                 \<lparr>active_layer := set_last (Some 1) (active_layer (append_timestep p)),
                  volume := set_last
                     (Some (abraded_volume pol v (abrasion_rate p)
                              (distance pol g gs (density p) dt)))
                     (volume (append_timestep p))\<rparr>)"
              by (simp add: move_parcel_def)
            with Some c False Inr ca moved show ?thesis by simp
          qed
        qed
      qed
    qed
  qed
qed

lemma current_exited:
  "exited p \<Longrightarrow> current p = None \<or> (\<exists>x gs v. current p = Some (OUT_OF_NETWORK, x, gs, v))"
  by (simp add: current_def exited_def split: option.splits)

lemma move_parcel_exited:
  assumes "move_parcel pol topo ps dt tidx i p = Inr p'" and "exited p"
  shows "p' = append_timestep p"
  using assms(1)
proof (cases rule: move_parcel_cases)
  case rest
  then show ?thesis by simp
next
  case (still r x gs v g b)
  with current_exited [OF assms(2)] show ?thesis by simp
next
  case (moved r x gs v g a)
  with current_exited [OF assms(2)] show ?thesis by simp
qed

lemma source_place: "source (place pol tidx r a q) = source q"
  by (cases a) (simp_all add: place_def)

lemma starting_link_place: "starting_link (place pol tidx r a q) = starting_link q"
  by (cases a) (simp_all add: place_def)

lemma move_parcel_attributes:
  assumes "move_parcel pol topo ps dt tidx i p = Inr p'"
  shows "source p' = source p \<and> starting_link p' = starting_link p"
  using assms
  by (cases rule: move_parcel_cases)
    (simp_all add: append_timestep_def source_place starting_link_place)

lemma run_one_step_Inr:
  assumes "run_one_step pol dt m = Inr m'"
  shows "move_all pol (grid m) (parcels m) dt (Suc (nst_time_idx m)) = Inr (parcels m')"
    and "nst_time_idx m' = Suc (nst_time_idx m)"
  using assms by (auto simp: run_one_step_def split: if_splits sum.splits)

lemma step_keeps_exited_run_one_step: "step_keeps_exited (run_one_step pol)"
  unfolding step_keeps_exited_def
proof (intro allI impI conjI)
  fix dt m m' assume s: "run_one_step pol dt m = Inr m'"
  note ma = move_all_Inr [OF run_one_step_Inr(1) [OF s]]
  show "length (parcels m) \<le> length (parcels m')" using ma(1) by simp
  fix i assume i: "i < length (parcels m)"
  with ma(2) have mp: "move_parcel pol (grid m) (parcels m) dt (Suc (nst_time_idx m)) i
      (parcels m ! i) = Inr (parcels m' ! i)" by simp
  show "source (parcels m' ! i) = source (parcels m ! i)"
    using move_parcel_attributes [OF mp] by simp
  assume "exited (parcels m ! i)"
  then show "exited (parcels m' ! i)"
    using move_parcel_exited [OF mp] by (simp add: exited_append_timestep)
qed

lemma add_item_Inr:
  assumes "add_item k new ps = Inr ps'"
  shows "length ps' = length ps + length new" and "\<forall>i<length ps. ps' ! i = ps ! i"
  using assms by (auto simp: add_item_def Let_def nth_append split: if_splits)

lemma add_keeps_rows_add_item: "add_keeps_rows add_item"
  unfolding add_keeps_rows_def using add_item_Inr by fastforce

lemma geometry_flume:
  "0 \<le> r \<Longrightarrow> r < 15 \<Longrightarrow>
   geometry flume r =
     Inr \<lparr>reach_length = 100, channel_width = 5, channel_slope = 1 / 100, flow_depth = 1,
          downstream = (if r = 14 then OUT_OF_NETWORK else r + 1)\<rparr>"
  by (auto simp: geometry_def flume_def)

lemma flume_hydraulics: "\<not> (\<exists>g\<in>set flume. flow_depth g < 0 \<or> shear_stress g < 0)"
  by (auto simp: flume_def shear_stress_def)

lemma flume_policy_simps:
  "max_cascade_hops flume_policy = 20"
  "exit_location flume_policy = None"
  "active_layer_member flume_policy topo ps i = True"
  "critical_shear_stress flume_policy gs rho = 50"
  "travel_distance flume_policy gs tau crit dt = 225"
  "abraded_volume flume_policy v rate d = max 0 (v - rate * d * v)"
  "bed_slope flume_policy topo ps k = 1 / 100"
  by (simp_all add: flume_policy_def)

lemma update_slopes_flume: "update_slopes flume_policy flume ps = flume"
  by (simp add: update_slopes_def flume_def flume_policy_def list_eq_iff_nth_eq
      nth_enumerate_eq)

lemma run_one_step_flume:
  "run_one_step flume_policy dt \<lparr>grid = flume, nst_time_idx = k, parcels = ps\<rparr> =
     (case move_all flume_policy flume ps dt (Suc k) of
        Inl e \<Rightarrow> Inl e
      | Inr ps' \<Rightarrow> Inr \<lparr>grid = flume, nst_time_idx = Suc k, parcels = ps'\<rparr>)"
  using flume_hydraulics
  by (simp add: run_one_step_def update_slopes_flume split: sum.splits)

lemma run_three_parcels:
  "\<exists>m'. run_loop (config3_body (run_one_step flume_policy) add_item (\<lambda>k. 0) 86400)
          [0, 86400] three_parcels = Inr m'"
  by (simp add: config3_body_def three_parcels_def recycle_initial_bed_def mask_exited_def
      last_column_def assign_element_id_def assign_location_in_link_def
      assign_starting_link_def mask_and_def mask_initial_bed_def
      pulse_block_def pulse_time_def run_one_step_flume move_all_def
      enumerate_eq_zip upt_conv_Cons move_parcel_def current_def latest_def
      exited_bed_parcel_def exited_pulse_parcel_def resident_bed_parcel_def
      OUT_OF_NETWORK_def BAD_INDEX_def geometry_flume flume_policy_simps shear_stress_def
      distance_def cascade.simps append_timestep_def extend_def place_def set_last_def)

lemma fits_in_reach:
  fixes x d len :: real
  assumes "0 \<le> x" "x \<le> 1" "0 \<le> d" "d \<le> (1 - x) * len"
  shows "0 \<le> (if len = 0 then x else x + d / len) \<and> (if len = 0 then x else x + d / len) \<le> 1"
proof (cases "len > 0")
  case True
  from assms(4) True have "d / len \<le> 1 - x" by (simp add: pos_divide_le_eq)
  moreover have "0 \<le> d / len" using assms(3) True by simp
  ultimately show ?thesis using assms(1) True by auto
next
  case False
  then have "(1 - x) * len \<le> 0" using assms(2) by (simp add: mult_nonneg_nonpos)
  with assms(3,4) have "d = 0" by simp
  then show ?thesis using assms(1,2) by simp
qed

lemma cascade_lands_in_unit:
  "0 \<le> x \<Longrightarrow> x \<le> 1 \<Longrightarrow> 0 \<le> d \<Longrightarrow>
   cascade topo max_hops hops r x d = Inr (Landed r' x' h') \<Longrightarrow> 0 \<le> x' \<and> x' \<le> 1"
proof (induction topo max_hops hops r x d rule: cascade.induct)
  case (1 topo max_hops hops r x d)
  from "1.prems"(4) obtain g where g: "geometry topo r = Inr g"
    by (auto simp: cascade.simps [of topo max_hops hops r x d] split: sum.splits)
  show ?case
  proof (cases "d \<le> (1 - x) * reach_length g")
    case True
    with "1.prems"(4) g
    have "x' = (if reach_length g = 0 then x else x + d / reach_length g)"
      by (simp add: cascade.simps [of topo max_hops hops r x d])
    with fits_in_reach [OF "1.prems"(1,2,3) True] show ?thesis by simp
  next
    case False
    with "1.prems"(4) g have nh: "\<not> max_hops \<le> hops"
      and nd: "downstream g \<noteq> OUT_OF_NETWORK"
      and rec: "cascade topo max_hops (Suc hops) (downstream g) 0
                  (d - (1 - x) * reach_length g) = Inr (Landed r' x' h')"
      by (auto simp: cascade.simps [of topo max_hops hops r x d] split: if_splits)
    have "0 \<le> d - (1 - x) * reach_length g" using False by simp
    from "1.IH" [OF g False nh nd _ _ this rec] show ?thesis by simp
  qed
qed

lemma cascade_hops_bounded:
  "hops \<le> max_hops \<Longrightarrow> cascade topo max_hops hops r x d = Inr a \<Longrightarrow> hops_of a \<le> max_hops"
proof (induction topo max_hops hops r x d rule: cascade.induct)
  case (1 topo max_hops hops r x d)
  from "1.prems"(2) obtain g where g: "geometry topo r = Inr g"
    by (auto simp: cascade.simps [of topo max_hops hops r x d] split: sum.splits)
  show ?case
  proof (cases "d \<le> (1 - x) * reach_length g")
    case True
    with "1.prems" g show ?thesis
      by (auto simp: cascade.simps [of topo max_hops hops r x d])
  next
    case False
    with "1.prems"(2) g have nh: "\<not> max_hops \<le> hops"
      by (auto simp: cascade.simps [of topo max_hops hops r x d] split: if_splits)
    show ?thesis
    proof (cases "downstream g = OUT_OF_NETWORK")
      case True
      with "1.prems"(2) g False nh show ?thesis
        by (auto simp: cascade.simps [of topo max_hops hops r x d])
    next
      case nd: False
      with "1.prems"(2) g False nh
      have rec: "cascade topo max_hops (Suc hops) (downstream g) 0
                  (d - (1 - x) * reach_length g) = Inr a"
        by (simp add: cascade.simps [of topo max_hops hops r x d])
      from nh have "Suc hops \<le> max_hops" by simp
      from "1.IH" [OF g False nh nd this rec] show ?thesis .
    qed
  qed
qed

lemma cascade_degenerate:
  "\<forall>r\<in>S. \<exists>g. geometry topo r = Inr g \<and> reach_length g = 0 \<and> downstream g \<in> S \<Longrightarrow>
   r \<in> S \<Longrightarrow> 0 < d \<Longrightarrow> cascade topo max_hops hops r x d = Inl TopologyDegenerateError"
proof (induction topo max_hops hops r x d rule: cascade.induct)
  case (1 topo max_hops hops r x d)
  note cyc = "1.prems"(1)
  from cyc "1.prems"(2) obtain g where g: "geometry topo r = Inr g"
    and z: "reach_length g = 0" and ds: "downstream g \<in> S" by blast
  have nf: "\<not> d \<le> (1 - x) * reach_length g" using z "1.prems"(3) by simp
  show ?case
  proof (cases "max_hops \<le> hops")
    case True
    with g nf show ?thesis by (simp add: cascade.simps [of topo max_hops hops r x d])
  next
    case False
    from cyc ds have "\<exists>g'. geometry topo (downstream g) = Inr g'" by blast
    then have nd: "downstream g \<noteq> OUT_OF_NETWORK"
      by (auto simp: geometry_def OUT_OF_NETWORK_def BAD_INDEX_def split: if_splits)
    have "0 < d - (1 - x) * reach_length g" using z "1.prems"(3) by simp
    from "1.IH" [OF g nf False nd cyc ds this] g nf False nd show ?thesis
      by (simp add: cascade.simps [of topo max_hops hops r x d])
  qed
qed

lemma latest_set_last: "xs \<noteq> [] \<Longrightarrow> latest (set_last v xs) = v"
  by (simp add: latest_def set_last_eq_Nil last_set_last)

lemma extend_not_Nil: "extend xs \<noteq> []"
  by (simp add: extend_def)

lemma position_ok_append_timestep: "position_ok (append_timestep p) = position_ok p"
  by (simp add: position_ok_def exited_def append_timestep_def latest_extend)

lemma current_Some:
  "current p = Some (r, x, gs, v) \<Longrightarrow>
   latest (element_id p) = Some r \<and> latest (location_in_link p) = Some x \<and>
   latest (D p) = Some gs \<and> latest (volume p) = Some v"
  by (simp add: current_def split: option.splits)

lemma position_ok_place:
  assumes "case a of Landed r' x' h \<Rightarrow> 0 \<le> x' \<and> x' \<le> 1 | Left_network h \<Rightarrow> True"
    and "element_id q \<noteq> []" and "location_in_link q \<noteq> []"
  shows "position_ok (place pol tidx r a q)"
proof (cases a)
  case (Landed r' x' h)
  with assms show ?thesis
    by (simp add: place_def position_ok_def latest_set_last)
next
  case (Left_network h)
  with assms show ?thesis
    by (simp add: place_def position_ok_def exited_def latest_set_last)
qed

lemma move_parcel_position_ok:
  assumes nonneg: "\<forall>gs tau crit dt. 0 \<le> travel_distance pol gs tau crit dt"
    and mv: "move_parcel pol topo ps dt tidx i p = Inr p'"
    and ok: "position_ok p"
  shows "position_ok p'"
  using mv
proof (cases rule: move_parcel_cases)
  case rest
  with ok show ?thesis by (simp add: position_ok_append_timestep)
next
  case (still r x gs v g b)
  have "position_ok (append_timestep p)" using ok by (simp add: position_ok_append_timestep)
  then show ?thesis using still(4) by (simp add: position_ok_def exited_def)
next
  case (moved r x gs v g a)
  from current_Some [OF moved(1)] have lr: "latest (element_id p) = Some r"
    and lx: "latest (location_in_link p) = Some x" by simp_all
  from ok lr lx moved(2) have x: "0 \<le> x" "x \<le> 1"
    by (simp_all add: position_ok_def exited_def)
  have d: "0 \<le> distance pol g gs (density p) dt"
    using nonneg by (simp add: distance_def)
  have "case a of Landed r' x' h \<Rightarrow> 0 \<le> x' \<and> x' \<le> 1 | Left_network h \<Rightarrow> True"
  proof (cases a)
    case (Landed r' x' h)
    with cascade_lands_in_unit [OF x d] moved(4) show ?thesis by simp
  next
    case (Left_network h)
    then show ?thesis by simp
  qed
  then show ?thesis
    unfolding moved(5)
    by (rule position_ok_place) (simp_all add: append_timestep_def extend_not_Nil)
qed

lemma run_one_step_position_ok:
  assumes nonneg: "\<forall>gs tau crit dt. 0 \<le> travel_distance pol gs tau crit dt"
    and s: "run_one_step pol dt m = Inr m'"
    and ok: "\<forall>p\<in>set (parcels m). position_ok p"
  shows "\<forall>p\<in>set (parcels m'). position_ok p"
proof
  fix p' assume "p' \<in> set (parcels m')"
  then obtain i where i: "i < length (parcels m')" and p': "p' = parcels m' ! i"
    by (auto simp: in_set_conv_nth)
  note ma = move_all_Inr [OF run_one_step_Inr(1) [OF s]]
  from i ma(1) have i': "i < length (parcels m)" by simp
  with ma(2) have mp: "move_parcel pol (grid m) (parcels m) dt (Suc (nst_time_idx m)) i
      (parcels m ! i) = Inr (parcels m' ! i)" by simp
  from ok i' have "position_ok (parcels m ! i)" by simp
  from move_parcel_position_ok [OF nonneg mp this] p' show "position_ok p'" by simp
qed

lemma cascade_flume_example:
  "cascade flume 20 0 3 (1 / 2) 225 = Inr (Landed 5 (3 / 4) 2)"
  "cascade flume 20 0 14 (1 / 2) 225 = Inr (Left_network 1)"
  by (simp_all add: cascade.simps geometry_flume OUT_OF_NETWORK_def BAD_INDEX_def)

lemma number_of_times_aligned:
  "\<forall>p\<in>set ps. aligned (Suc k) p \<Longrightarrow> number_of_times k ps = Suc k"
  by (cases ps) (simp_all add: number_of_times_def aligned_def)

lemma backfill_single:
  "backfill (Suc k) k [v] = replicate k None @ [v]"
  by (simp add: backfill_def)

lemma length_new_pulse_parcels: "length (new_pulse_parcels tidx rand) = 200"
  by (simp add: new_pulse_parcels_def num_pulse_parcels_def)

lemma nth_new_pulse_parcels:
  "k < 200 \<Longrightarrow>
   new_pulse_parcels tidx rand ! k =
     \<lparr>starting_link = 5, source = ''pulse'', density = 2650, abrasion_rate = 0,
      grid_element = [Some ''link''], element_id = [Some 5],
      time_arrival_in_link = [Some (real tidx)], active_layer = [Some 1],
      location_in_link = [Some (rand k)], D = [Some (8 / 100)], volume = [Some 2]\<rparr>"
  by (simp add: new_pulse_parcels_def num_pulse_parcels_def pulse_link_def)


lemma aligned_append_timestep: "aligned n p \<Longrightarrow> aligned (Suc n) (append_timestep p)"
  by (simp add: aligned_def append_timestep_def length_extend)

lemma aligned_place: "aligned n q \<Longrightarrow> aligned n (place pol tidx r a q)"
  by (cases a) (simp_all add: aligned_def place_def length_set_last)

lemma move_parcel_aligned:
  assumes "move_parcel pol topo ps dt tidx i p = Inr p'" and "aligned n p"
  shows "aligned (Suc n) p'"
  using assms(1)
proof (cases rule: move_parcel_cases)
  case rest
  with assms(2) show ?thesis by (simp add: aligned_append_timestep)
next
  case (still r x gs v g b)
  from aligned_append_timestep [OF assms(2)] still(4) show ?thesis
    by (simp add: aligned_def length_set_last)
next
  case (moved r x gs v g a)
  from aligned_append_timestep [OF assms(2)]
  have "aligned (Suc n) ((append_timestep p)
                 \<lparr>active_layer := set_last (Some 1) (active_layer (append_timestep p)),
                  volume := set_last
                     (Some (abraded_volume pol v (abrasion_rate p)
                              (distance pol g gs (density p) dt)))
                     (volume (append_timestep p))\<rparr>)"
    by (simp add: aligned_def length_set_last)
  then show ?thesis unfolding moved(5) by (rule aligned_place)
qed

lemma run_one_step_table_ok:
  assumes nonneg: "\<forall>gs tau crit dt. 0 \<le> travel_distance pol gs tau crit dt"
    and s: "run_one_step pol dt m = Inr m'"
    and ok: "table_ok (nst_time_idx m) (parcels m)"
  shows "table_ok (nst_time_idx m') (parcels m')"
  unfolding table_ok_def
proof
  fix p' assume "p' \<in> set (parcels m')"
  then obtain i where i: "i < length (parcels m')" and p': "p' = parcels m' ! i"
    by (auto simp: in_set_conv_nth)
  note ma = move_all_Inr [OF run_one_step_Inr(1) [OF s]]
  from i ma(1) have i': "i < length (parcels m)" by simp
  with ma(2) have mp: "move_parcel pol (grid m) (parcels m) dt (Suc (nst_time_idx m)) i
      (parcels m ! i) = Inr (parcels m' ! i)" by simp
  from ok i' have a: "aligned (Suc (nst_time_idx m)) (parcels m ! i)"
    and b: "position_ok (parcels m ! i)" by (simp_all add: table_ok_def)
  from move_parcel_aligned [OF mp a] move_parcel_position_ok [OF nonneg mp b]
    run_one_step_Inr(2) [OF s] p'
  show "aligned (Suc (nst_time_idx m')) p' \<and> position_ok p'" by simp
qed

lemma relocated_ok:
  assumes "aligned (Suc k) p"
  shows "aligned (Suc k) (p\<lparr>starting_link := s,
                      location_in_link := set_last (Some 0) (location_in_link p),
                      element_id := set_last (Some 1) (element_id p)\<rparr>) \<and>
         position_ok (p\<lparr>starting_link := s,
                      location_in_link := set_last (Some 0) (location_in_link p),
                      element_id := set_last (Some 1) (element_id p)\<rparr>)"
proof -
  from assms have "location_in_link p \<noteq> []" by (auto simp: aligned_def)
  then show ?thesis using assms
    by (simp add: aligned_def length_set_last position_ok_def latest_set_last)
qed

lemma recycle_initial_bed_table_ok:
  assumes r: "recycle_initial_bed ps = Inr ps'" and ok: "table_ok k ps"
  shows "table_ok k ps'"
  unfolding table_ok_def
proof
  fix p' assume "p' \<in> set ps'"
  then obtain i where i: "i < length ps'" and p': "p' = ps' ! i"
    by (auto simp: in_set_conv_nth)
  from i recycle_initial_bed_length [OF r] have i': "i < length ps" by simp
  from ok i' have a: "aligned (Suc k) (ps ! i)" and b: "position_ok (ps ! i)"
    by (simp_all add: table_ok_def)
  show "aligned (Suc k) p' \<and> position_ok p'"
    using recycle_initial_bed_nth [OF r i'] relocated_ok [OF a, of "- 2"] a b p'
    by (simp split: if_splits)
qed

lemma recycle_exited_table_ok:
  assumes r: "recycle_exited ps = Inr ps'" and ok: "table_ok k ps"
  shows "table_ok k ps'"
  unfolding table_ok_def
proof
  fix p' assume "p' \<in> set ps'"
  then obtain i where i: "i < length ps'" and p': "p' = ps' ! i"
    by (auto simp: in_set_conv_nth)
  from i recycle_exited_length [OF r] have i': "i < length ps" by simp
  from ok i' have a: "aligned (Suc k) (ps ! i)" and b: "position_ok (ps ! i)"
    by (simp_all add: table_ok_def)
  show "aligned (Suc k) p' \<and> position_ok p'"
    using recycle_exited_nth [OF r i'] relocated_ok [OF a, of OUT_OF_NETWORK] a b p'
    by (simp split: if_splits)
qed

lemma pulse_block_table_ok:
  assumes p: "pulse_block add_item rand dt t k ps = Inr ps'" and ok: "table_ok k ps"
    and rand: "\<forall>j. 0 \<le> rand j \<and> rand j \<le> 1"
  shows "table_ok k ps'"
proof (cases "t = dt * pulse_time")
  case False
  with p ok show ?thesis by (simp add: pulse_block_def)
next
  case True
  from ok have al: "\<forall>p\<in>set ps. aligned (Suc k) p" by (simp add: table_ok_def)
  have n: "number_of_times k ps = Suc k" by (rule number_of_times_aligned [OF al])
  from p True have ps': "ps' = ps @ map (\<lambda>q.
                  q\<lparr>grid_element := backfill (Suc k) k (grid_element q),
                    element_id := backfill (Suc k) k (element_id q),
                    time_arrival_in_link := backfill (Suc k) k (time_arrival_in_link q),
                    active_layer := backfill (Suc k) k (active_layer q),
                    location_in_link := backfill (Suc k) k (location_in_link q),
                    D := backfill (Suc k) k (D q),
                    volume := backfill (Suc k) k (volume q)\<rparr>)
                 (new_pulse_parcels k rand)"
    by (simp add: pulse_block_def add_item_def n)
  show ?thesis
    unfolding table_ok_def
  proof
    fix q assume "q \<in> set ps'"
    then consider "q \<in> set ps" | j where "j < num_pulse_parcels" 
      "q = \<lparr>starting_link = pulse_link, source = ''pulse'', density = 2650, abrasion_rate = 0,
         grid_element = backfill (Suc k) k [Some ''link''],
         element_id = backfill (Suc k) k [Some pulse_link],
         time_arrival_in_link = backfill (Suc k) k [Some (real k)],
         active_layer = backfill (Suc k) k [Some 1],
         location_in_link = backfill (Suc k) k [Some (rand j)],
         D = backfill (Suc k) k [Some (8 / 100)],
         volume = backfill (Suc k) k [Some 2]\<rparr>"
      by (auto simp: ps' new_pulse_parcels_def)
    then show "aligned (Suc k) q \<and> position_ok q"
    proof cases
      case 1
      with ok show ?thesis by (simp add: table_ok_def)
    next
      case 2
      with rand show ?thesis
        by (simp add: backfill_single aligned_def position_ok_def latest_def)
    qed
  qed
qed

lemma config3_body_table_ok:
  assumes nonneg: "\<forall>gs tau crit dt. 0 \<le> travel_distance pol gs tau crit dt"
    and rand: "\<forall>j. 0 \<le> rand j \<and> rand j \<le> 1"
    and b: "config3_body (run_one_step pol) add_item rand dt t m = Inr m'"
    and ok: "table_ok (nst_time_idx m) (parcels m)"
  shows "table_ok (nst_time_idx m') (parcels m')"
proof -
  from b obtain ps ps' where r: "recycle_initial_bed (parcels m) = Inr ps"
    and p: "pulse_block add_item rand dt t (nst_time_idx m) ps = Inr ps'"
    and s: "run_one_step pol dt (m\<lparr>parcels := ps'\<rparr>) = Inr m'"
    by (auto simp: config3_body_def split: sum.splits)
  from recycle_initial_bed_table_ok [OF r ok] have "table_ok (nst_time_idx m) ps" .
  from pulse_block_table_ok [OF p this rand] have "table_ok (nst_time_idx m) ps'" .
  then have "table_ok (nst_time_idx (m\<lparr>parcels := ps'\<rparr>)) (parcels (m\<lparr>parcels := ps'\<rparr>))"
    by simp
  from run_one_step_table_ok [OF nonneg s this] show ?thesis .
qed

lemma config2_body_table_ok:
  assumes nonneg: "\<forall>gs tau crit dt. 0 \<le> travel_distance pol gs tau crit dt"
    and b: "config2_body (run_one_step pol) dt t m = Inr m'"
    and ok: "table_ok (nst_time_idx m) (parcels m)"
  shows "table_ok (nst_time_idx m') (parcels m')"
proof -
  from b obtain ps where r: "recycle_exited (parcels m) = Inr ps"
    and s: "run_one_step pol dt (m\<lparr>parcels := ps\<rparr>) = Inr m'"
    by (auto simp: config2_body_def split: sum.splits)
  from recycle_exited_table_ok [OF r ok]
  have "table_ok (nst_time_idx (m\<lparr>parcels := ps\<rparr>)) (parcels (m\<lparr>parcels := ps\<rparr>))"
    by simp
  from run_one_step_table_ok [OF nonneg s this] show ?thesis .
qed

lemma run_loop_invariant:
  assumes step: "\<And>t m m'. body t m = Inr m' \<Longrightarrow> P m \<Longrightarrow> P m'"
  shows "run_loop body ts m = Inr m' \<Longrightarrow> P m \<Longrightarrow> P m'"
proof (induction ts arbitrary: m)
  case Nil
  then show ?case by simp
next
  case (Cons t ts)
  from Cons.prems(1) obtain m1 where b: "body t m = Inr m1"
    and rest: "run_loop body ts m1 = Inr m'"
    by (auto split: sum.splits)
  from Cons.IH [OF rest step [OF b Cons.prems(2)]] show ?case .
qed

lemma geometry_Inr_iff:
  "(\<exists>g. geometry topo r = Inr g) = (0 \<le> r \<and> r < int (length topo))"
  by (auto simp: geometry_def)

lemma geometry_in_set: "geometry topo r = Inr g \<Longrightarrow> g \<in> set topo"
  by (auto simp: geometry_def split: if_splits)

lemma cascade_no_invalid_reach:
  "wf_topology topo \<Longrightarrow> 0 \<le> r \<Longrightarrow> r < int (length topo) \<Longrightarrow>
   cascade topo max_hops hops r x d = Inl e \<Longrightarrow> e = TopologyDegenerateError"
proof (induction topo max_hops hops r x d rule: cascade.induct)
  case (1 topo max_hops hops r x d)
  from "1.prems"(2,3) obtain g where g: "geometry topo r = Inr g"
    using geometry_Inr_iff [of topo r] by blast
  show ?case
  proof (cases "d \<le> (1 - x) * reach_length g")
    case True
    with "1.prems"(4) g show ?thesis
      by (simp add: cascade.simps [of topo max_hops hops r x d])
  next
    case nf: False
    show ?thesis
    proof (cases "max_hops \<le> hops")
      case True
      with "1.prems"(4) g nf show ?thesis
        by (simp add: cascade.simps [of topo max_hops hops r x d])
    next
      case nh: False
      show ?thesis
      proof (cases "downstream g = OUT_OF_NETWORK")
        case True
        with "1.prems"(4) g nf nh show ?thesis
          by (simp add: cascade.simps [of topo max_hops hops r x d])
      next
        case nd: False
        from geometry_in_set [OF g] "1.prems"(1) nd
        have v: "0 \<le> downstream g" "downstream g < int (length topo)"
          by (auto simp: wf_topology_def)
        from "1.prems"(4) g nf nh nd
        have rec: "cascade topo max_hops (Suc hops) (downstream g) 0
                  (d - (1 - x) * reach_length g) = Inl e"
          by (simp add: cascade.simps [of topo max_hops hops r x d])
        from "1.IH" [OF g nf nh nd "1.prems"(1) v rec] show ?thesis .
      qed
    qed
  qed
qed

lemma wf_topology_flume: "wf_topology flume"
  by (auto simp: wf_topology_def flume_def)

lemmas cascade_unbounded_induct =
  cascade_unbounded.raw_induct [where xa = "((((topo, hops), r), x), d)", simplified]
  for topo hops r x d

lemma cascade_unbounded_cycle:
  assumes "cascade_unbounded topo hops r x d = Some y"
  shows "(\<forall>s\<in>S. \<exists>g. geometry topo s = Inr g \<and> reach_length g = 0 \<and> downstream g \<in> S) \<longrightarrow>
         r \<in> S \<longrightarrow> 0 < d \<longrightarrow> False"
proof (rule cascade_unbounded_induct [where P = "\<lambda>topo hops r x d y.
    (\<forall>s\<in>S. \<exists>g. geometry topo s = Inr g \<and> reach_length g = 0 \<and> downstream g \<in> S) \<longrightarrow>
         r \<in> S \<longrightarrow> 0 < d \<longrightarrow> False", OF _ assms])
  fix w :: "reach list \<Rightarrow> nat \<Rightarrow> int \<Rightarrow> real \<Rightarrow> real \<Rightarrow> (error + advance) option"
  fix topo hops r x d y
  assume ih: "\<And>topo hops r x d y. w topo hops r x d = Some y \<Longrightarrow>
      (\<forall>s\<in>S. \<exists>g. geometry topo s = Inr g \<and> reach_length g = 0 \<and> downstream g \<in> S) \<longrightarrow>
         r \<in> S \<longrightarrow> 0 < d \<longrightarrow> False"
    and body: "(case geometry topo r of
        Inl e \<Rightarrow> Some (Inl e)
      | Inr g \<Rightarrow>
          if d \<le> (1 - x) * reach_length g
          then Some (Inr (Landed r (if reach_length g = 0 then x else x + d / reach_length g) hops))
          else if downstream g = OUT_OF_NETWORK then Some (Inr (Left_network (Suc hops)))
          else w topo (Suc hops) (downstream g) 0 (d - (1 - x) * reach_length g)) = Some y"
  show "(\<forall>s\<in>S. \<exists>g. geometry topo s = Inr g \<and> reach_length g = 0 \<and> downstream g \<in> S) \<longrightarrow>
         r \<in> S \<longrightarrow> 0 < d \<longrightarrow> False"
  proof (intro impI)
    assume cyc: "\<forall>s\<in>S. \<exists>g. geometry topo s = Inr g \<and> reach_length g = 0 \<and> downstream g \<in> S"
      and r: "r \<in> S" and d: "0 < d"
    from cyc r obtain g where g: "geometry topo r = Inr g"
      and z: "reach_length g = 0" and ds: "downstream g \<in> S" by blast
    from cyc ds have "\<exists>g'. geometry topo (downstream g) = Inr g'" by blast
    then have nd: "downstream g \<noteq> OUT_OF_NETWORK"
      by (auto simp: geometry_def OUT_OF_NETWORK_def BAD_INDEX_def split: if_splits)
    from body g z nd d
    have "w topo (Suc hops) (downstream g) 0 d = Some y" by simp
    from ih [OF this] cyc ds d show False by blast
  qed
qed

lemma cascade_unbounded_diverges:
  assumes "\<forall>s\<in>S. \<exists>g. geometry topo s = Inr g \<and> reach_length g = 0 \<and> downstream g \<in> S"
    and "r \<in> S" and "0 < d"
  shows "cascade_unbounded topo hops r x d = None"
proof (cases "cascade_unbounded topo hops r x d")
  case None
  then show ?thesis .
next
  case (Some y)
  from cascade_unbounded_cycle [OF Some, of S] assms show ?thesis by blast
qed

lemma cascade_agrees:
  "cascade topo max_hops hops r x d = res \<Longrightarrow> res \<noteq> Inl TopologyDegenerateError \<Longrightarrow>
   cascade_unbounded topo hops r x d = Some res"
proof (induction topo max_hops hops r x d rule: cascade.induct)
  case (1 topo max_hops hops r x d)
  show ?case
  proof (cases "geometry topo r")
    case (Inl e)
    with "1.prems"(1) show ?thesis
      by (simp add: cascade.simps [of topo max_hops hops r x d]
          cascade_unbounded.simps [of topo hops r x d])
  next
    case g: (Inr g)
    show ?thesis
    proof (cases "d \<le> (1 - x) * reach_length g")
      case True
      with "1.prems"(1) g show ?thesis
        by (simp add: cascade.simps [of topo max_hops hops r x d]
            cascade_unbounded.simps [of topo hops r x d])
    next
      case nf: False
      with "1.prems" g have nh: "\<not> max_hops \<le> hops"
        by (auto simp: cascade.simps [of topo max_hops hops r x d])
      show ?thesis
      proof (cases "downstream g = OUT_OF_NETWORK")
        case True
        with "1.prems"(1) g nf nh show ?thesis
          by (simp add: cascade.simps [of topo max_hops hops r x d]
              cascade_unbounded.simps [of topo hops r x d])
      next
        case nd: False
        with "1.prems"(1) g nf nh
        have rec: "cascade topo max_hops (Suc hops) (downstream g) 0
                  (d - (1 - x) * reach_length g) = res"
          by (simp add: cascade.simps [of topo max_hops hops r x d])
        from "1.IH" [OF g nf nh nd rec "1.prems"(2)] g nf nd show ?thesis
          by (simp add: cascade_unbounded.simps [of topo hops r x d])
      qed
    qed
  qed
qed

lemma cascade_enough_hops:
  assumes "cascade_unbounded topo hops r x d = Some res"
  shows "\<exists>n. \<forall>max_hops\<ge>n. cascade topo max_hops hops r x d = res"
proof (rule cascade_unbounded_induct [where P = "\<lambda>topo hops r x d res.
    \<exists>n. \<forall>max_hops\<ge>n. cascade topo max_hops hops r x d = res", OF _ assms])
  fix w :: "reach list \<Rightarrow> nat \<Rightarrow> int \<Rightarrow> real \<Rightarrow> real \<Rightarrow> (error + advance) option"
  fix topo hops r x d res
  assume ih: "\<And>topo hops r x d res. w topo hops r x d = Some res \<Longrightarrow>
      \<exists>n. \<forall>max_hops\<ge>n. cascade topo max_hops hops r x d = res"
    and body: "(case geometry topo r of
        Inl e \<Rightarrow> Some (Inl e)
      | Inr g \<Rightarrow>
          if d \<le> (1 - x) * reach_length g
          then Some (Inr (Landed r (if reach_length g = 0 then x else x + d / reach_length g) hops))
          else if downstream g = OUT_OF_NETWORK then Some (Inr (Left_network (Suc hops)))
          else w topo (Suc hops) (downstream g) 0 (d - (1 - x) * reach_length g)) = Some res"
  show "\<exists>n. \<forall>max_hops\<ge>n. cascade topo max_hops hops r x d = res"
  proof (cases "geometry topo r")
    case (Inl e)
    with body show ?thesis by (simp add: cascade.simps [of topo _ hops r x d])
  next
    case g: (Inr g)
    show ?thesis
    proof (cases "d \<le> (1 - x) * reach_length g")
      case True
      with body g show ?thesis by (simp add: cascade.simps [of topo _ hops r x d])
    next
      case nf: False
      show ?thesis
      proof (cases "downstream g = OUT_OF_NETWORK")
        case True
        with body g nf have "\<forall>max_hops\<ge>Suc hops. cascade topo max_hops hops r x d = res"
          by (simp add: cascade.simps [of topo _ hops r x d])
        then show ?thesis ..
      next
        case nd: False
        with body g nf
        have "w topo (Suc hops) (downstream g) 0 (d - (1 - x) * reach_length g) = Some res"
          by simp
        from ih [OF this] obtain n where
          n: "\<forall>max_hops\<ge>n. cascade topo max_hops (Suc hops) (downstream g) 0
                (d - (1 - x) * reach_length g) = res" by blast
        have "\<forall>max_hops\<ge>max n (Suc hops). cascade topo max_hops hops r x d = res"
        proof (intro allI impI)
          fix max_hops assume m: "max n (Suc hops) \<le> max_hops"
          then have "\<not> max_hops \<le> hops" "n \<le> max_hops" by simp_all
          with n g nf nd show "cascade topo max_hops hops r x d = res"
            by (simp add: cascade.simps [of topo max_hops hops r x d])
        qed
        then show ?thesis ..
      qed
    qed
  qed
qed

section \<open>An example step\<close>

lemma step_three_parcels:
  "\<exists>m'. run_one_step flume_policy 86400 three_parcels = Inr m'"
  by (simp add: three_parcels_def run_one_step_flume move_all_def
      enumerate_eq_zip upt_conv_Cons move_parcel_def current_def latest_def
      exited_bed_parcel_def exited_pulse_parcel_def resident_bed_parcel_def
      OUT_OF_NETWORK_def BAD_INDEX_def geometry_flume flume_policy_simps shear_stress_def
      distance_def cascade.simps append_timestep_def extend_def place_def set_last_def)

lemma table_ok_three_parcels: "table_ok (nst_time_idx three_parcels) (parcels three_parcels)"
  by (simp add: table_ok_def three_parcels_def position_ok_def exited_def latest_def
      aligned_def exited_bed_parcel_def exited_pulse_parcel_def resident_bed_parcel_def
      OUT_OF_NETWORK_def BAD_INDEX_def)

lemma starting_links_three_parcels:
  "length (parcels three_parcels) = 3"
  "starting_link (parcels three_parcels ! 0) = 14"
  "starting_link (parcels three_parcels ! Suc 0) = 5"
  "starting_link (parcels three_parcels ! 2) = 3"
  by (simp_all add: three_parcels_def exited_bed_parcel_def exited_pulse_parcel_def
      resident_bed_parcel_def)

lemma add_item_three_parcels:
  "\<exists>qs. add_item 2 (new_pulse_parcels 2 (\<lambda>k. 0)) (parcels three_parcels) = Inr qs"
  by (simp add: add_item_def Let_def number_of_times_def three_parcels_def
      exited_bed_parcel_def)

lemma relocate_three_parcels:
  "\<exists>rs. relocate [True, False, True] 1 0 (parcels three_parcels) = Inr rs"
  by (simp add: relocate_def three_parcels_def exited_bed_parcel_def exited_pulse_parcel_def
      resident_bed_parcel_def)

lemma add_item_new_rows:
  assumes "add_item k new ps = Inr qs" and "j < length new"
  shows "starting_link (qs ! (length ps + j)) = starting_link (new ! j)"
  using assms by (auto simp: add_item_def Let_def nth_append split: if_splits)

lemma relocate_starting_link:
  assumes "relocate msk r x ps = Inr rs" and "i < length ps"
  shows "starting_link (rs ! i) = starting_link (ps ! i)"
  using relocate_nth [OF assms] by simp

lemma run_one_step_starting_link:
  assumes "run_one_step pol dt m = Inr m'"
  shows "length (parcels m') = length (parcels m)"
    and "\<forall>i<length (parcels m). starting_link (parcels m' ! i) = starting_link (parcels m ! i)"
proof -
  note mv = move_all_Inr [OF run_one_step_Inr(1) [OF assms]]
  from mv(1) show "length (parcels m') = length (parcels m)" .
  show "\<forall>i<length (parcels m). starting_link (parcels m' ! i) = starting_link (parcels m ! i)"
  proof (intro allI impI)
    fix i assume "i < length (parcels m)"
    with mv(2) have "move_parcel pol (grid m) (parcels m) dt (Suc (nst_time_idx m)) i
        (parcels m ! i) = Inr (parcels m' ! i)" by simp
    from move_parcel_attributes [OF this]
    show "starting_link (parcels m' ! i) = starting_link (parcels m ! i)" by simp
  qed
qed

section \<open>The originating reach\<close>

text \<open>
  The recycling block of Configuration 2 overwrites \<^verbatim>\<open>starting_link\<close>: a parcel
  that started on reach 14 and has left the network starts, after the block, on the
  sentinel \<open>-2\<close>.
\<close>

theorem starting_link_overwritten_by_recycling:
  "starting_link exited_bed_parcel = 14 \<and>
   recycle_exited [exited_bed_parcel] =
     Inr [exited_bed_parcel\<lparr>starting_link := - 2,
            location_in_link := [Some (1 / 2), Some (3 / 4), Some 0],
            element_id := [Some 14, Some 14, Some 1]\<rparr>]"
  by (simp add: recycle_exited_def mask_exited_def last_column_def assign_element_id_def
      assign_location_in_link_def assign_starting_link_def set_last_def
      exited_bed_parcel_def OUT_OF_NETWORK_def BAD_INDEX_def)

text \<open>
  Claim C9, as amended.  \<^verbatim>\<open>starting_link\<close> is fixed when the parcel is added, and
  it is changed neither by a transport step, nor by adding further parcels (a new row
  carries the starting link it was given), nor by a relocation of position alone.  It is
  not invariant under recycling.  Each recycling block overwrites it with the
  out-of-network sentinel for exactly the parcels it relocates (in Configuration 2 the
  parcels whose last reach is the sentinel, in Configuration 3 those of them whose source
  is \<^verbatim>\<open>initial_bed_sed\<close>), and leaves it unchanged for every other parcel.  The
  recycling blocks are the notebook's; the transport step and \<^verbatim>\<open>add_item\<close> are the
  engine's, as the specification describes them.
\<close>

theorem recycling_starting_link:
  "(recycle_exited ps = Inr ps' \<longrightarrow>
      length ps' = length ps \<and>
      (\<forall>i<length ps. starting_link (ps' ! i) =
         (if exited (ps ! i)
          then OUT_OF_NETWORK else starting_link (ps ! i)))) \<and>
   (recycle_initial_bed ps = Inr ps'' \<longrightarrow>
      length ps'' = length ps \<and>
      (\<forall>i<length ps. starting_link (ps'' ! i) =
         (if exited (ps ! i) \<and>
             source (ps ! i) = ''initial_bed_sed''
          then OUT_OF_NETWORK else starting_link (ps ! i)))) \<and>
   (run_one_step pol dt m = Inr m' \<longrightarrow>
      length (parcels m') = length (parcels m) \<and>
      (\<forall>i<length (parcels m).
         starting_link (parcels m' ! i) = starting_link (parcels m ! i))) \<and>
   (add_item k new ps = Inr qs \<longrightarrow>
      length qs = length ps + length new \<and>
      (\<forall>i<length ps. starting_link (qs ! i) = starting_link (ps ! i)) \<and>
      (\<forall>j<length new. starting_link (qs ! (length ps + j)) = starting_link (new ! j))) \<and>
   (relocate msk r x ps = Inr rs \<longrightarrow>
      length rs = length ps \<and>
      (\<forall>i<length ps. starting_link (rs ! i) = starting_link (ps ! i)))"
proof (intro conjI impI allI)
  assume r: "recycle_exited ps = Inr ps'"
  show "length ps' = length ps" by (rule recycle_exited_length [OF r])
  fix i assume "i < length ps"
  then show "starting_link (ps' ! i) =
         (if exited (ps ! i)
          then OUT_OF_NETWORK else starting_link (ps ! i))"
    using recycle_exited_nth [OF r] by simp
next
  assume r: "recycle_initial_bed ps = Inr ps''"
  show "length ps'' = length ps" by (rule recycle_initial_bed_length [OF r])
  fix i assume "i < length ps"
  then show "starting_link (ps'' ! i) =
         (if exited (ps ! i) \<and>
             source (ps ! i) = ''initial_bed_sed''
          then OUT_OF_NETWORK else starting_link (ps ! i))"
    using recycle_initial_bed_nth [OF r] by (simp add: OUT_OF_NETWORK_def BAD_INDEX_def)
next
  assume r: "run_one_step pol dt m = Inr m'"
  show "length (parcels m') = length (parcels m)" by (rule run_one_step_starting_link(1) [OF r])
  fix i assume "i < length (parcels m)"
  then show "starting_link (parcels m' ! i) = starting_link (parcels m ! i)"
    using run_one_step_starting_link(2) [OF r] by simp
next
  assume a: "add_item k new ps = Inr qs"
  show "length qs = length ps + length new" by (rule add_item_Inr(1) [OF a])
next
  fix i assume a: "add_item k new ps = Inr qs" and "i < length ps"
  then show "starting_link (qs ! i) = starting_link (ps ! i)"
    using add_item_Inr(2) [OF a] by simp
next
  fix j assume a: "add_item k new ps = Inr qs" and "j < length new"
  then show "starting_link (qs ! (length ps + j)) = starting_link (new ! j)"
    by (rule add_item_new_rows)
next
  assume r: "relocate msk r x ps = Inr rs"
  show "length rs = length ps" by (rule relocate_length [OF r])
  fix i assume "i < length ps"
  then show "starting_link (rs ! i) = starting_link (ps ! i)"
    by (rule relocate_starting_link [OF r])
qed

theorem recycling_starting_link_witness:
  "(\<exists>ps'. recycle_exited [exited_bed_parcel, exited_pulse_parcel, resident_bed_parcel] = Inr ps' \<and>
      map starting_link ps' = [- 2, - 2, 3]) \<and>
   (\<exists>ps''. recycle_initial_bed [exited_bed_parcel, exited_pulse_parcel, resident_bed_parcel] = Inr ps'' \<and>
      map starting_link ps'' = [- 2, 5, 3]) \<and>
   (\<exists>m'. run_one_step flume_policy 86400 three_parcels = Inr m' \<and>
      length (parcels m') = 3 \<and>
      starting_link (parcels m' ! 0) = 14 \<and> starting_link (parcels m' ! 1) = 5 \<and>
      starting_link (parcels m' ! 2) = 3) \<and>
   (\<exists>qs. add_item 2 (new_pulse_parcels 2 (\<lambda>k. 0)) (parcels three_parcels) = Inr qs \<and>
      length qs = 203 \<and>
      starting_link (qs ! 0) = 14 \<and> starting_link (qs ! 1) = 5 \<and>
      starting_link (qs ! 2) = 3 \<and> starting_link (qs ! 3) = 5 \<and>
      starting_link (qs ! 202) = 5) \<and>
   (\<exists>rs. relocate [True, False, True] 1 0 (parcels three_parcels) = Inr rs \<and>
      starting_link (rs ! 0) = 14 \<and> starting_link (rs ! 1) = 5 \<and>
      starting_link (rs ! 2) = 3)"
proof -
  have s1: "starting_link exited_pulse_parcel = 5"
    by (simp add: exited_pulse_parcel_def)
  have s2: "starting_link resident_bed_parcel = 3"
    by (simp add: resident_bed_parcel_def)
  from step_three_parcels obtain m1 where
    run1: "run_one_step flume_policy 86400 three_parcels = Inr m1" by blast
  from add_item_three_parcels obtain qs where
    add1: "add_item 2 (new_pulse_parcels 2 (\<lambda>k. 0)) (parcels three_parcels) = Inr qs"
    by blast
  from relocate_three_parcels obtain rs where
    rel1: "relocate [True, False, True] 1 0 (parcels three_parcels) = Inr rs" by blast
  note th = recycling_starting_link
    [where ps = "[exited_bed_parcel, exited_pulse_parcel, resident_bed_parcel]"
       and ps' = "[exited_bed_parcel\<lparr>starting_link := - 2,
            location_in_link := [Some (1 / 2), Some (3 / 4), Some 0],
            element_id := [Some 14, Some 14, Some 1]\<rparr>,
          exited_pulse_parcel\<lparr>starting_link := - 2,
            location_in_link := [Some (1 / 2), Some (3 / 4), Some 0],
            element_id := [Some 14, Some 14, Some 1]\<rparr>,
          resident_bed_parcel]"
       and ps'' = "[exited_bed_parcel\<lparr>starting_link := - 2,
            location_in_link := [Some (1 / 2), Some (3 / 4), Some 0],
            element_id := [Some 14, Some 14, Some 1]\<rparr>,
          exited_pulse_parcel,
          resident_bed_parcel]"
       and pol = flume_policy and dt = 86400 and m = three_parcels and m' = m1
       and k = 2 and new = "new_pulse_parcels 2 (\<lambda>k. 0)" and qs = qs
       and msk = "[True, False, True]" and r = 1 and x = 0 and rs = rs]
  have ps: "parcels three_parcels = [exited_bed_parcel, exited_pulse_parcel, resident_bed_parcel]"
    by (simp add: three_parcels_def)
  from th have c12:
    "(\<exists>ps'. recycle_exited [exited_bed_parcel, exited_pulse_parcel, resident_bed_parcel] = Inr ps' \<and>
      map starting_link ps' = [- 2, - 2, 3]) \<and>
     (\<exists>ps''. recycle_initial_bed [exited_bed_parcel, exited_pulse_parcel, resident_bed_parcel] = Inr ps'' \<and>
      map starting_link ps'' = [- 2, 5, 3])"
    by (simp add: recycle_exited_example recycle_initial_bed_example s1 s2)
  from th run1 have c3: "length (parcels m1) = 3 \<and>
      starting_link (parcels m1 ! 0) = 14 \<and> starting_link (parcels m1 ! 1) = 5 \<and>
      starting_link (parcels m1 ! 2) = 3"
    by (simp add: starting_links_three_parcels)
  have new: "length (new_pulse_parcels 2 (\<lambda>k. 0)) = 200"
    "starting_link (new_pulse_parcels 2 (\<lambda>k. 0) ! 0) = 5"
    "starting_link (new_pulse_parcels 2 (\<lambda>k. 0) ! 199) = 5"
    by (simp_all add: length_new_pulse_parcels nth_new_pulse_parcels)
  from th add1 ps have c4a: "length qs = 203 \<and>
      (\<forall>i<Suc (Suc (Suc 0)). starting_link (qs ! i) = starting_link (parcels three_parcels ! i)) \<and>
      (\<forall>j<200. starting_link (qs ! Suc (Suc (Suc j))) =
         starting_link (new_pulse_parcels 2 (\<lambda>k. 0) ! j))"
    by (simp add: new(1))
  have c4: "length qs = 203 \<and>
      starting_link (qs ! 0) = 14 \<and> starting_link (qs ! 1) = 5 \<and>
      starting_link (qs ! 2) = 3 \<and> starting_link (qs ! 3) = 5 \<and>
      starting_link (qs ! 202) = 5"
    using c4a [THEN conjunct1]
      c4a [THEN conjunct2, THEN conjunct1, rule_format, of 0]
      c4a [THEN conjunct2, THEN conjunct1, rule_format, of "Suc 0"]
      c4a [THEN conjunct2, THEN conjunct1, rule_format, of 2]
      c4a [THEN conjunct2, THEN conjunct2, rule_format, of 0]
      c4a [THEN conjunct2, THEN conjunct2, rule_format, of 199]
    by (simp add: starting_links_three_parcels new numeral_3_eq_3)
  from th rel1 ps have c5: "starting_link (rs ! 0) = 14 \<and> starting_link (rs ! 1) = 5 \<and>
      starting_link (rs ! 2) = 3"
    by (simp add: starting_links_three_parcels s1 s2 exited_bed_parcel_def)
  from c12 c3 c4 c5 run1 add1 rel1 show ?thesis by blast
qed

section \<open>Recycling filtered by source\<close>

lemma pulse_block_keeps:
  assumes "add_keeps_rows add" and "pulse_block add rand dt t tidx ps = Inr ps'"
  shows "length ps \<le> length ps' \<and> (\<forall>i<length ps. ps' ! i = ps ! i)"
proof (cases "t = dt * pulse_time")
  case True
  with assms(2) have "add tidx (new_pulse_parcels tidx rand) ps = Inr ps'"
    by (simp add: pulse_block_def)
  with assms(1) show ?thesis unfolding add_keeps_rows_def by blast
next
  case False
  with assms(2) show ?thesis by (simp add: pulse_block_def)
qed

lemma config3_body_keeps_exited:
  assumes st: "step_keeps_exited step" and ad: "add_keeps_rows add"
    and b: "config3_body step add rand dt t m = Inr m'"
    and i: "i < length (parcels m)"
    and ex: "exited (parcels m ! i)" and src: "source (parcels m ! i) \<noteq> ''initial_bed_sed''"
  shows "i < length (parcels m') \<and> exited (parcels m' ! i) \<and>
         source (parcels m' ! i) = source (parcels m ! i)"
proof -
  from b obtain ps ps' where r: "recycle_initial_bed (parcels m) = Inr ps"
    and p: "pulse_block add rand dt t (nst_time_idx m) ps = Inr ps'"
    and s: "step dt (m\<lparr>parcels := ps'\<rparr>) = Inr m'"
    by (auto simp: config3_body_def split: sum.splits)
  have l1: "length ps = length (parcels m)" by (rule recycle_initial_bed_length [OF r])
  have e1: "ps ! i = parcels m ! i"
    using recycle_initial_bed_nth [OF r i] src by simp
  from pulse_block_keeps [OF ad p] have l2: "length ps \<le> length ps'"
    and e2: "ps' ! i = ps ! i" using i l1 by auto
  have i': "i < length (parcels (m\<lparr>parcels := ps'\<rparr>))" using i l1 l2 by simp
  from st s have "length (parcels (m\<lparr>parcels := ps'\<rparr>)) \<le> length (parcels m') \<and>
        (\<forall>i<length (parcels (m\<lparr>parcels := ps'\<rparr>)).
           source (parcels m' ! i) = source (parcels (m\<lparr>parcels := ps'\<rparr>) ! i) \<and>
           (exited (parcels (m\<lparr>parcels := ps'\<rparr>) ! i) \<longrightarrow> exited (parcels m' ! i)))"
    unfolding step_keeps_exited_def by blast
  with i' e1 e2 ex show ?thesis by auto
qed

lemma run_loop_keeps_exited:
  assumes st: "step_keeps_exited step" and ad: "add_keeps_rows add"
  shows "run_loop (config3_body step add rand dt) ts m = Inr m' \<Longrightarrow>
     i < length (parcels m) \<Longrightarrow> exited (parcels m ! i) \<Longrightarrow>
     source (parcels m ! i) \<noteq> ''initial_bed_sed'' \<Longrightarrow>
     i < length (parcels m') \<and> exited (parcels m' ! i) \<and>
     source (parcels m' ! i) = source (parcels m ! i)"
proof (induction ts arbitrary: m)
  case Nil
  then show ?case by simp
next
  case (Cons t ts)
  from Cons.prems(1) obtain m1 where b: "config3_body step add rand dt t m = Inr m1"
    and rest: "run_loop (config3_body step add rand dt) ts m1 = Inr m'"
    by (auto split: sum.splits)
  from config3_body_keeps_exited [OF st ad b Cons.prems(2,3,4)]
  have k: "i < length (parcels m1)" "exited (parcels m1 ! i)"
    "source (parcels m1 ! i) = source (parcels m ! i)" by simp_all
  from Cons.IH [OF rest k(1) k(2)] k(3) Cons.prems(4) show ?case by simp
qed

text \<open>
  Claim C10.  In Configuration 3 the relocation mask is the conjunction of ``the last
  reach is the out-of-network sentinel'' and ``the source is \<^verbatim>\<open>initial_bed_sed\<close>'':
  the block moves exactly the exited parcels of the initial bed to reach 1, position 0
  (and marks their starting link), and leaves every other row as it is.  A parcel with
  another source tag, a pulse parcel in particular, that is out of the network stays out
  of the network through every later iteration of the loop, with its row index and its
  source tag; so it does through the 100 iterations of the notebook.  The loop calls landlab twice; the theorem holds for every step that keeps
  exited parcels exited and rows and source tags in place, and every \<^verbatim>\<open>add_item\<close>
  that keeps the rows of the table.
\<close>

theorem recycling_filtered_by_source:
  assumes "step_keeps_exited step" and "add_keeps_rows add"
  shows "(recycle_initial_bed ps = Inr ps' \<longrightarrow>
            length ps' = length ps \<and>
            (\<forall>i<length ps. ps' ! i =
               (if exited (ps ! i) \<and> source (ps ! i) = ''initial_bed_sed''
                then (ps ! i)\<lparr>starting_link := - 2,
                       location_in_link := set_last (Some 0) (location_in_link (ps ! i)),
                       element_id := set_last (Some 1) (element_id (ps ! i))\<rparr>
                else ps ! i))) \<and>
         (run_loop (config3_body step add rand dt) ts m = Inr m' \<longrightarrow>
            (\<forall>i<length (parcels m).
               exited (parcels m ! i) \<and> source (parcels m ! i) \<noteq> ''initial_bed_sed'' \<longrightarrow>
               i < length (parcels m') \<and> exited (parcels m' ! i) \<and>
               source (parcels m' ! i) = source (parcels m ! i))) \<and>
         (config3 step add rand m = Inr m' \<longrightarrow>
            (\<forall>i<length (parcels m).
               exited (parcels m ! i) \<and> source (parcels m ! i) \<noteq> ''initial_bed_sed'' \<longrightarrow>
               i < length (parcels m') \<and> exited (parcels m' ! i) \<and>
               source (parcels m' ! i) = source (parcels m ! i)))"
proof (intro conjI impI allI)
  assume r: "recycle_initial_bed ps = Inr ps'"
  show "length ps' = length ps" by (rule recycle_initial_bed_length [OF r])
  fix i assume "i < length ps"
  then show "ps' ! i =
               (if exited (ps ! i) \<and> source (ps ! i) = ''initial_bed_sed''
                then (ps ! i)\<lparr>starting_link := - 2,
                       location_in_link := set_last (Some 0) (location_in_link (ps ! i)),
                       element_id := set_last (Some 1) (element_id (ps ! i))\<rparr>
                else ps ! i)"
    by (rule recycle_initial_bed_nth [OF r])
next
  fix i
  assume l: "run_loop (config3_body step add rand dt) ts m = Inr m'"
    and i: "i < length (parcels m)"
    and e: "exited (parcels m ! i) \<and> source (parcels m ! i) \<noteq> ''initial_bed_sed''"
  from run_loop_keeps_exited [OF assms l i] e
  show "i < length (parcels m')" "exited (parcels m' ! i)"
    "source (parcels m' ! i) = source (parcels m ! i)" by simp_all
next
  fix i
  assume "config3 step add rand m = Inr m'"
    and i: "i < length (parcels m)"
    and e: "exited (parcels m ! i) \<and> source (parcels m ! i) \<noteq> ''initial_bed_sed''"
  then have l: "run_loop (config3_body step add rand (60 * 60 * 24))
      (py_range (100 * (60 * 60 * 24)) (60 * 60 * 24)) m = Inr m'"
    by (simp add: config3_def Let_def)
  from run_loop_keeps_exited [OF assms l i] e
  show "i < length (parcels m')" "exited (parcels m' ! i)"
    "source (parcels m' ! i) = source (parcels m ! i)" by simp_all
qed

theorem recycling_filtered_by_source_witness:
  "recycle_initial_bed (parcels three_parcels) =
     Inr [exited_bed_parcel\<lparr>starting_link := - 2,
            location_in_link := [Some (1 / 2), Some (3 / 4), Some 0],
            element_id := [Some 14, Some 14, Some 1]\<rparr>,
          exited_pulse_parcel, resident_bed_parcel] \<and>
   (\<exists>m'. run_loop (config3_body (run_one_step flume_policy) add_item (\<lambda>k. 0) 86400)
            [0, 86400] three_parcels = Inr m' \<and>
      1 < length (parcels m') \<and> exited (parcels m' ! 1) \<and>
      source (parcels m' ! 1) = ''pulse'')"
proof -
  from run_three_parcels obtain m' where
    run: "run_loop (config3_body (run_one_step flume_policy) add_item (\<lambda>k. 0) 86400)
            [0, 86400] three_parcels = Inr m'" by blast
  have pre: "1 < length (parcels three_parcels)" "exited (parcels three_parcels ! 1)"
    "source (parcels three_parcels ! 1) = ''pulse''"
    by (simp_all add: three_parcels_def exited_pulse_parcel_def exited_bed_parcel_def
        exited_def latest_def OUT_OF_NETWORK_def BAD_INDEX_def)
  from recycling_filtered_by_source
    [OF step_keeps_exited_run_one_step add_keeps_rows_add_item,
      of "parcels three_parcels" "[]" flume_policy "\<lambda>k. 0" 86400 "[0, 86400]"
        three_parcels m'] run pre
  have "1 < length (parcels m') \<and> exited (parcels m' ! 1) \<and>
      source (parcels m' ! 1) = ''pulse''" by simp
  with run show ?thesis
    by (auto simp: three_parcels_def recycle_initial_bed_example)
qed

section \<open>The walk of an advance\<close>

lemma cascade_Inr_geometry:
  "cascade topo mh k r x d = Inr a \<Longrightarrow> \<exists>g. geometry topo r = Inr g"
  by (cases "geometry topo r") (simp_all add: cascade.simps [of topo mh k r x d])

lemma cascade_path_landed:
  "geometry topo r = Inr g \<Longrightarrow> 0 \<le> d \<Longrightarrow>
   cascade topo mh k r x d = Inr (Landed r' x' h) \<Longrightarrow>
   k \<le> h \<and> reach_after topo (h - k) r = Some r' \<and>
   (\<exists>g'. geometry topo r' = Inr g' \<and>
      x * reach_length g + d = length_of_path topo (h - k) r + x' * reach_length g') \<and>
   (\<forall>j<h - k. length_of_path topo (Suc j) r < x * reach_length g + d)"
proof (induction topo mh k r x d arbitrary: g rule: cascade.induct)
  case (1 topo mh k r x d)
  note geo = \<open>geometry topo r = Inr g\<close>
  note res = \<open>cascade topo mh k r x d = Inr (Landed r' x' h)\<close>
  show ?case
  proof (cases "d \<le> (1 - x) * reach_length g")
    case True
    with geo res have eq: "r' = r" "h = k"
      "x' = (if reach_length g = 0 then x else x + d / reach_length g)"
      by (simp_all add: cascade.simps [of topo mh k r x d])
    from True \<open>0 \<le> d\<close> have "reach_length g = 0 \<Longrightarrow> d = 0" by simp
    then have "x * reach_length g + d = x' * reach_length g"
      using eq(3) by (cases "reach_length g = 0") (simp_all add: field_simps)
    with geo eq show ?thesis by simp
  next
    case False
    with geo res have nb: "\<not> mh \<le> k" and nout: "downstream g \<noteq> OUT_OF_NETWORK"
      and rec: "cascade topo mh (Suc k) (downstream g) 0 (d - (1 - x) * reach_length g) =
                  Inr (Landed r' x' h)"
      by (simp_all add: cascade.simps [of topo mh k r x d] split: if_splits)
    from cascade_Inr_geometry [OF rec] obtain g2 where
      g2: "geometry topo (downstream g) = Inr g2" by blast
    from False have pos: "0 \<le> d - (1 - x) * reach_length g" by simp
    from "1.IH" [OF geo False nb nout g2 pos rec]
    have le: "Suc k \<le> h"
      and ra: "reach_after topo (h - Suc k) (downstream g) = Some r'"
      and ex: "\<exists>g'. geometry topo r' = Inr g' \<and>
          0 * reach_length g2 + (d - (1 - x) * reach_length g) =
            length_of_path topo (h - Suc k) (downstream g) + x' * reach_length g'"
      and al: "\<forall>j<h - Suc k. length_of_path topo (Suc j) (downstream g) <
          0 * reach_length g2 + (d - (1 - x) * reach_length g)"
      by simp_all
    from le have hk: "h - k = Suc (h - Suc k)" by simp
    have c1: "reach_after topo (h - k) r = Some r'"
      unfolding hk using geo ra by simp
    from ex obtain g' where g': "geometry topo r' = Inr g'"
      and dist: "d - (1 - x) * reach_length g =
            length_of_path topo (h - Suc k) (downstream g) + x' * reach_length g'"
      by auto
    have c2: "x * reach_length g + d = length_of_path topo (h - k) r + x' * reach_length g'"
      unfolding hk using geo dist by (simp add: algebra_simps)
    have c3: "\<forall>j<h - k. length_of_path topo (Suc j) r < x * reach_length g + d"
    proof (intro allI impI)
      fix j assume j: "j < h - k"
      show "length_of_path topo (Suc j) r < x * reach_length g + d"
      proof (cases j)
        case 0
        with geo False show ?thesis by (simp add: algebra_simps)
      next
        case (Suc j')
        with j hk have "j' < h - Suc k" by simp
        with al have "length_of_path topo (Suc j') (downstream g) <
            d - (1 - x) * reach_length g" by simp
        with geo Suc show ?thesis by (simp add: algebra_simps)
      qed
    qed
    from le c1 g' c2 c3 show ?thesis by auto
  qed
qed

lemma cascade_path_left:
  "geometry topo r = Inr g \<Longrightarrow>
   cascade topo mh k r x d = Inr (Left_network h) \<Longrightarrow>
   k < h \<and>
   (\<exists>r1 g1. reach_after topo (h - Suc k) r = Some r1 \<and> geometry topo r1 = Inr g1 \<and>
      downstream g1 = OUT_OF_NETWORK) \<and>
   (\<forall>j<h - k. length_of_path topo (Suc j) r < x * reach_length g + d)"
proof (induction topo mh k r x d arbitrary: g rule: cascade.induct)
  case (1 topo mh k r x d)
  note geo = \<open>geometry topo r = Inr g\<close>
  note res = \<open>cascade topo mh k r x d = Inr (Left_network h)\<close>
  from geo res have over: "\<not> d \<le> (1 - x) * reach_length g" and nb: "\<not> mh \<le> k"
    by (simp_all add: cascade.simps [of topo mh k r x d] split: if_splits)
  show ?case
  proof (cases "downstream g = OUT_OF_NETWORK")
    case True
    with geo res over nb have h: "h = Suc k"
      by (simp add: cascade.simps [of topo mh k r x d])
    with geo True over show ?thesis by (simp add: algebra_simps)
  next
    case False
    with geo res over nb have
      rec: "cascade topo mh (Suc k) (downstream g) 0 (d - (1 - x) * reach_length g) =
                  Inr (Left_network h)"
      by (simp add: cascade.simps [of topo mh k r x d])
    from cascade_Inr_geometry [OF rec] obtain g2 where
      g2: "geometry topo (downstream g) = Inr g2" by blast
    from "1.IH" [OF geo over nb False g2 rec]
    have le: "Suc k < h"
      and ex: "\<exists>r1 g1. reach_after topo (h - Suc (Suc k)) (downstream g) = Some r1 \<and>
          geometry topo r1 = Inr g1 \<and> downstream g1 = OUT_OF_NETWORK"
      and al: "\<forall>j<h - Suc k. length_of_path topo (Suc j) (downstream g) <
          0 * reach_length g2 + (d - (1 - x) * reach_length g)"
      by simp_all
    from le have hk: "h - k = Suc (h - Suc k)" and hk2: "h - Suc k = Suc (h - Suc (Suc k))"
      by simp_all
    have c1: "\<exists>r1 g1. reach_after topo (h - Suc k) r = Some r1 \<and> geometry topo r1 = Inr g1 \<and>
      downstream g1 = OUT_OF_NETWORK"
      unfolding hk2 using geo ex by simp
    have c3: "\<forall>j<h - k. length_of_path topo (Suc j) r < x * reach_length g + d"
    proof (intro allI impI)
      fix j assume j: "j < h - k"
      show "length_of_path topo (Suc j) r < x * reach_length g + d"
      proof (cases j)
        case 0
        with geo over show ?thesis by (simp add: algebra_simps)
      next
        case (Suc j')
        with j hk have "j' < h - Suc k" by simp
        with al have "length_of_path topo (Suc j') (downstream g) <
            d - (1 - x) * reach_length g" by simp
        with geo Suc show ?thesis by (simp add: algebra_simps)
      qed
    qed
    from le c1 c3 show ?thesis by auto
  qed
qed

lemma cascade_hops_from:
  "cascade topo mh k r x d = Inr a \<Longrightarrow> k \<le> hops_of a"
proof (induction topo mh k r x d rule: cascade.induct)
  case (1 topo mh k r x d)
  from cascade_Inr_geometry [OF "1.prems"] obtain g where
    geo: "geometry topo r = Inr g" by blast
  show ?case
  proof (cases "d \<le> (1 - x) * reach_length g")
    case True
    with geo "1.prems" show ?thesis
      by (auto simp: cascade.simps [of topo mh k r x d])
  next
    case False
    with geo "1.prems" have nb: "\<not> mh \<le> k"
      by (auto simp: cascade.simps [of topo mh k r x d] split: if_splits)
    show ?thesis
    proof (cases "downstream g = OUT_OF_NETWORK")
      case True
      with geo False nb "1.prems" show ?thesis
        by (auto simp: cascade.simps [of topo mh k r x d])
    next
      case out: False
      with geo False nb "1.prems" have
        "cascade topo mh (Suc k) (downstream g) 0 (d - (1 - x) * reach_length g) = Inr a"
        by (simp add: cascade.simps [of topo mh k r x d])
      from "1.IH" [OF geo False nb out this] show ?thesis by simp
    qed
  qed
qed

lemma cascade_no_hop_iff:
  assumes "geometry topo r = Inr g" and "cascade topo mh 0 r x d = Inr a"
  shows "(hops_of a = 0) = (d \<le> (1 - x) * reach_length g)"
proof (cases "d \<le> (1 - x) * reach_length g")
  case True
  with assms show ?thesis by (auto simp: cascade.simps [of topo mh 0 r x d])
next
  case False
  with assms have nb: "\<not> mh \<le> 0"
    by (auto simp: cascade.simps [of topo mh 0 r x d] split: if_splits)
  have "1 \<le> hops_of a"
  proof (cases "downstream g = OUT_OF_NETWORK")
    case True
    with assms False nb show ?thesis
      by (auto simp: cascade.simps [of topo mh 0 r x d])
  next
    case out: False
    with assms False nb have
      "cascade topo mh (Suc 0) (downstream g) 0 (d - (1 - x) * reach_length g) = Inr a"
      by (simp add: cascade.simps [of topo mh 0 r x d])
    from cascade_hops_from [OF this] show ?thesis by simp
  qed
  with False show ?thesis by simp
qed

lemma move_parcel_mobile:
  assumes "move_parcel pol topo ps dt tidx i p = Inr p'"
    and "current p = Some (r, x, gs, v)" and "r \<noteq> OUT_OF_NETWORK"
    and "geometry topo r = Inr g"
    and "active_layer_member pol topo ps i"
    and "critical_shear_stress pol gs (density p) < shear_stress g"
  shows "\<exists>a. cascade topo (max_cascade_hops pol) 0 r x (distance pol g gs (density p) dt) = Inr a \<and>
           (case a of
              Landed r' x' h \<Rightarrow>
                latest (element_id p') = Some r' \<and> latest (location_in_link p') = Some x'
            | Left_network h \<Rightarrow> exited p')"
proof (cases "cascade topo (max_cascade_hops pol) 0 r x (distance pol g gs (density p) dt)")
  case (Inl e)
  with assms show ?thesis by (simp add: move_parcel_def)
next
  case (Inr a)
  with assms have p': "p' = place pol tidx r a
        ((append_timestep p)
           \<lparr>active_layer := set_last (Some 1) (active_layer (append_timestep p)),
            volume := set_last (Some (abraded_volume pol v (abrasion_rate p)
                        (distance pol g gs (density p) dt))) (volume (append_timestep p))\<rparr>)"
    by (simp add: move_parcel_def)
  have ne: "element_id (append_timestep p) \<noteq> []" "location_in_link (append_timestep p) \<noteq> []"
    by (simp_all add: append_timestep_def extend_not_Nil)
  show ?thesis using Inr ne
    by (cases a) (simp_all add: p' place_def latest_set_last exited_def)
qed

lemma run_one_step_mobile:
  assumes "run_one_step pol dt m = Inr m'" and "i < length (parcels m)"
    and "current (parcels m ! i) = Some (r, x, gs, v)" and "r \<noteq> OUT_OF_NETWORK"
    and "geometry (grid m) r = Inr g"
    and "active_layer_member pol (grid m) (parcels m) i"
    and "critical_shear_stress pol gs (density (parcels m ! i)) < shear_stress g"
  shows "\<exists>a. cascade (grid m) (max_cascade_hops pol) 0 r x
               (distance pol g gs (density (parcels m ! i)) dt) = Inr a \<and>
           (case a of
              Landed r' x' h \<Rightarrow>
                latest (element_id (parcels m' ! i)) = Some r' \<and>
                latest (location_in_link (parcels m' ! i)) = Some x'
            | Left_network h \<Rightarrow> exited (parcels m' ! i))"
proof -
  from move_all_Inr(2) [OF run_one_step_Inr(1) [OF assms(1)]] assms(2)
  have "move_parcel pol (grid m) (parcels m) dt (Suc (nst_time_idx m)) i (parcels m ! i) =
      Inr (parcels m' ! i)" by simp
  from move_parcel_mobile [OF this assms(3-7)] show ?thesis .
qed

lemma resident_bed_parcel_state:
  "latest (element_id (parcels three_parcels ! 2)) = Some 3"
  "latest (location_in_link (parcels three_parcels ! 2)) = Some (1 / 2)"
  "latest (D (parcels three_parcels ! 2)) = Some (2 / 25)"
  "latest (volume (parcels three_parcels ! 2)) = Some 2"
  "geometry flume 3 =
     Inr \<lparr>reach_length = 100, channel_width = 5, channel_slope = 1 / 100, flow_depth = 1,
          downstream = 4\<rparr>"
  "shear_stress \<lparr>reach_length = 100, channel_width = 5, channel_slope = 1 / 100,
      flow_depth = 1, downstream = 4\<rparr> = 981 / 10"
  by (simp_all add: three_parcels_def resident_bed_parcel_def exited_bed_parcel_def
      latest_def geometry_flume shear_stress_def)

lemma geometry_flume_outlet:
  "geometry flume 14 =
     Inr \<lparr>reach_length = 100, channel_width = 5, channel_slope = 1 / 100, flow_depth = 1,
          downstream = OUT_OF_NETWORK\<rparr>"
  by (simp add: geometry_flume)

lemma path_flume_example:
  "reach_after flume 2 3 = Some 5"
  "length_of_path flume 2 3 = 200"
  "reach_after flume 0 14 = Some 14"
  by (simp_all add: numeral_2_eq_2 geometry_flume)

section \<open>Positions after a step\<close>

text \<open>
  Claim C2.  The transport relation yields no negative distance.  Then a step that
  starts from a table in which every parcel is out of the network or at a fractional
  position in \<open>[0, 1]\<close> ends in such a table, and the cascade, started at a position
  in \<open>[0, 1]\<close>, lands at a position in \<open>[0, 1]\<close>.  So the property holds at the end
  of every step of the notebook's loops, however many: recycling puts a parcel at
  position 0 and the pulse at a draw of \<^verbatim>\<open>np.random.rand\<close>, a number in \<open>[0, 1]\<close>.

  An advance beyond the end of the reach is carried through the downstream reaches
  within the same step.  The step records, for a mobile parcel (in the active layer,
  above its critical shear stress), what the cascade returns for its position and its
  travel distance: the reach and the position where it landed, or the sentinel.  The
  cascade makes no hop exactly when the distance fits into the rest of the reach.  An
  advance that landed after \<open>h\<close> hops is on the reach \<open>h\<close> hops downstream; measured
  from the upstream end of the reach it started on, the parcel has come as far as it had
  to travel, the lengths of the \<open>h\<close> reaches it crossed and the fraction \<open>x'\<close> of
  the reach it is on; and it had to travel beyond the end of each of the reaches it
  crossed.  An advance that left the network after \<open>h\<close> hops made at least one, had to
  travel beyond the end of each of the \<open>h\<close> reaches on its way, and the last of them
  drains out of the network.
\<close>

theorem position_in_unit_interval_or_exited:
  assumes "\<forall>gs tau crit dt. 0 \<le> travel_distance pol gs tau crit dt"
  shows "(run_one_step pol dt m = Inr m' \<and> (\<forall>p\<in>set (parcels m). position_ok p) \<longrightarrow>
            (\<forall>p\<in>set (parcels m'). position_ok p)) \<and>
         (0 \<le> x \<and> x \<le> 1 \<and> 0 \<le> d \<and>
          cascade topo max_hops 0 r x d = Inr (Landed r' x' h) \<longrightarrow> 0 \<le> x' \<and> x' \<le> 1) \<and>
         (run_loop (config2_body (run_one_step pol) dt) ts m = Inr m' \<and>
          table_ok (nst_time_idx m) (parcels m) \<longrightarrow>
            table_ok (nst_time_idx m') (parcels m')) \<and>
         (run_loop (config3_body (run_one_step pol) add_item rand dt) ts m = Inr m' \<and>
          (\<forall>j. 0 \<le> rand j \<and> rand j \<le> 1) \<and> table_ok (nst_time_idx m) (parcels m) \<longrightarrow>
            table_ok (nst_time_idx m') (parcels m')) \<and>
         (run_one_step pol dt m = Inr m' \<and> i < length (parcels m) \<and>
          latest (element_id (parcels m ! i)) = Some r \<and>
          latest (location_in_link (parcels m ! i)) = Some x \<and>
          latest (D (parcels m ! i)) = Some gs \<and> latest (volume (parcels m ! i)) = Some v \<and>
          r \<noteq> OUT_OF_NETWORK \<and>
          geometry (grid m) r = Inr g \<and>
          active_layer_member pol (grid m) (parcels m) i \<and>
          critical_shear_stress pol gs (density (parcels m ! i)) < shear_stress g \<longrightarrow>
            (\<exists>a. cascade (grid m) (max_cascade_hops pol) 0 r x
                    (travel_distance pol gs (shear_stress g)
                       (critical_shear_stress pol gs (density (parcels m ! i))) dt) = Inr a \<and>
                 (case a of
                    Landed r' x' h \<Rightarrow>
                      latest (element_id (parcels m' ! i)) = Some r' \<and>
                      latest (location_in_link (parcels m' ! i)) = Some x'
                  | Left_network h \<Rightarrow> exited (parcels m' ! i)))) \<and>
         (geometry topo r = Inr g \<and> cascade topo max_hops 0 r x d = Inr a \<longrightarrow>
            (hops_of a = 0) = (d \<le> (1 - x) * reach_length g)) \<and>
         (geometry topo r = Inr g \<and> 0 \<le> d \<and>
          cascade topo max_hops 0 r x d = Inr (Landed r' x' h) \<longrightarrow>
            reach_after topo h r = Some r' \<and>
            (\<exists>g'. geometry topo r' = Inr g' \<and>
               x * reach_length g + d = length_of_path topo h r + x' * reach_length g') \<and>
            (\<forall>j<h. length_of_path topo (Suc j) r < x * reach_length g + d)) \<and>
         (geometry topo r = Inr g \<and> cascade topo max_hops 0 r x d = Inr (Left_network h) \<longrightarrow>
            0 < h \<and>
            (\<exists>r1 g1. reach_after topo (h - 1) r = Some r1 \<and> geometry topo r1 = Inr g1 \<and>
               downstream g1 = OUT_OF_NETWORK) \<and>
            (\<forall>j<h. length_of_path topo (Suc j) r < x * reach_length g + d))"
proof -
  have c1: "run_one_step pol dt m = Inr m' \<and> (\<forall>p\<in>set (parcels m). position_ok p) \<longrightarrow>
            (\<forall>p\<in>set (parcels m'). position_ok p)"
    using run_one_step_position_ok [OF assms] by blast
  have c2: "0 \<le> x \<and> x \<le> 1 \<and> 0 \<le> d \<and>
          cascade topo max_hops 0 r x d = Inr (Landed r' x' h) \<longrightarrow> 0 \<le> x' \<and> x' \<le> 1"
    using cascade_lands_in_unit [of x d topo max_hops 0 r r' x' h] by simp
  have c3: "run_loop (config2_body (run_one_step pol) dt) ts m = Inr m' \<and>
          table_ok (nst_time_idx m) (parcels m) \<longrightarrow>
            table_ok (nst_time_idx m') (parcels m')"
  proof (intro impI)
    assume a: "run_loop (config2_body (run_one_step pol) dt) ts m = Inr m' \<and>
          table_ok (nst_time_idx m) (parcels m)"
    show "table_ok (nst_time_idx m') (parcels m')"
    proof (rule run_loop_invariant
        [where body = "config2_body (run_one_step pol) dt"
           and P = "\<lambda>m. table_ok (nst_time_idx m) (parcels m)" and ts = ts and m = m])
      fix t m1 m2
      assume "config2_body (run_one_step pol) dt t m1 = Inr m2"
        and "table_ok (nst_time_idx m1) (parcels m1)"
      then show "table_ok (nst_time_idx m2) (parcels m2)"
        by (rule config2_body_table_ok [OF assms])
    next
      show "run_loop (config2_body (run_one_step pol) dt) ts m = Inr m'" using a by simp
    next
      show "table_ok (nst_time_idx m) (parcels m)" using a by simp
    qed
  qed
  have c4: "run_loop (config3_body (run_one_step pol) add_item rand dt) ts m = Inr m' \<and>
          (\<forall>j. 0 \<le> rand j \<and> rand j \<le> 1) \<and> table_ok (nst_time_idx m) (parcels m) \<longrightarrow>
            table_ok (nst_time_idx m') (parcels m')"
  proof (intro impI)
    assume a: "run_loop (config3_body (run_one_step pol) add_item rand dt) ts m = Inr m' \<and>
          (\<forall>j. 0 \<le> rand j \<and> rand j \<le> 1) \<and> table_ok (nst_time_idx m) (parcels m)"
    then have rand: "\<forall>j. 0 \<le> rand j \<and> rand j \<le> 1" by simp
    show "table_ok (nst_time_idx m') (parcels m')"
    proof (rule run_loop_invariant
        [where body = "config3_body (run_one_step pol) add_item rand dt"
           and P = "\<lambda>m. table_ok (nst_time_idx m) (parcels m)" and ts = ts and m = m])
      fix t m1 m2
      assume "config3_body (run_one_step pol) add_item rand dt t m1 = Inr m2"
        and "table_ok (nst_time_idx m1) (parcels m1)"
      then show "table_ok (nst_time_idx m2) (parcels m2)"
        by (rule config3_body_table_ok [OF assms rand])
    next
      show "run_loop (config3_body (run_one_step pol) add_item rand dt) ts m = Inr m'"
        using a by simp
    next
      show "table_ok (nst_time_idx m) (parcels m)" using a by simp
    qed
  qed
  have c5: "run_one_step pol dt m = Inr m' \<and> i < length (parcels m) \<and>
          latest (element_id (parcels m ! i)) = Some r \<and>
          latest (location_in_link (parcels m ! i)) = Some x \<and>
          latest (D (parcels m ! i)) = Some gs \<and> latest (volume (parcels m ! i)) = Some v \<and>
          r \<noteq> OUT_OF_NETWORK \<and>
          geometry (grid m) r = Inr g \<and>
          active_layer_member pol (grid m) (parcels m) i \<and>
          critical_shear_stress pol gs (density (parcels m ! i)) < shear_stress g \<longrightarrow>
            (\<exists>a. cascade (grid m) (max_cascade_hops pol) 0 r x
                    (travel_distance pol gs (shear_stress g)
                       (critical_shear_stress pol gs (density (parcels m ! i))) dt) = Inr a \<and>
                 (case a of
                    Landed r' x' h \<Rightarrow>
                      latest (element_id (parcels m' ! i)) = Some r' \<and>
                      latest (location_in_link (parcels m' ! i)) = Some x'
                  | Left_network h \<Rightarrow> exited (parcels m' ! i)))"
  proof (intro impI)
    assume a: "run_one_step pol dt m = Inr m' \<and> i < length (parcels m) \<and>
          latest (element_id (parcels m ! i)) = Some r \<and>
          latest (location_in_link (parcels m ! i)) = Some x \<and>
          latest (D (parcels m ! i)) = Some gs \<and> latest (volume (parcels m ! i)) = Some v \<and>
          r \<noteq> OUT_OF_NETWORK \<and>
          geometry (grid m) r = Inr g \<and>
          active_layer_member pol (grid m) (parcels m) i \<and>
          critical_shear_stress pol gs (density (parcels m ! i)) < shear_stress g"
    then have cur: "current (parcels m ! i) = Some (r, x, gs, v)"
      by (simp add: current_def)
    from a run_one_step_mobile [of pol dt m m' i r x gs v g, OF _ _ cur]
    show "\<exists>a. cascade (grid m) (max_cascade_hops pol) 0 r x
                    (travel_distance pol gs (shear_stress g)
                       (critical_shear_stress pol gs (density (parcels m ! i))) dt) = Inr a \<and>
                 (case a of
                    Landed r' x' h \<Rightarrow>
                      latest (element_id (parcels m' ! i)) = Some r' \<and>
                      latest (location_in_link (parcels m' ! i)) = Some x'
                  | Left_network h \<Rightarrow> exited (parcels m' ! i))"
      by (simp add: distance_def)
  qed
  have c6: "geometry topo r = Inr g \<and> cascade topo max_hops 0 r x d = Inr a \<longrightarrow>
            (hops_of a = 0) = (d \<le> (1 - x) * reach_length g)"
    using cascade_no_hop_iff [of topo r g max_hops x d a] by blast
  have c7: "geometry topo r = Inr g \<and> 0 \<le> d \<and>
          cascade topo max_hops 0 r x d = Inr (Landed r' x' h) \<longrightarrow>
            reach_after topo h r = Some r' \<and>
            (\<exists>g'. geometry topo r' = Inr g' \<and>
               x * reach_length g + d = length_of_path topo h r + x' * reach_length g') \<and>
            (\<forall>j<h. length_of_path topo (Suc j) r < x * reach_length g + d)"
    using cascade_path_landed [of topo r g d max_hops 0 x r' x' h] by simp
  have c8: "geometry topo r = Inr g \<and> cascade topo max_hops 0 r x d = Inr (Left_network h) \<longrightarrow>
            0 < h \<and>
            (\<exists>r1 g1. reach_after topo (h - 1) r = Some r1 \<and> geometry topo r1 = Inr g1 \<and>
               downstream g1 = OUT_OF_NETWORK) \<and>
            (\<forall>j<h. length_of_path topo (Suc j) r < x * reach_length g + d)"
    using cascade_path_left [of topo r g max_hops 0 x d h] by simp
  from c1 c2 c3 c4 c5 c6 c7 c8 show ?thesis by (intro conjI)
qed

theorem position_in_unit_interval_or_exited_witness:
  "(\<exists>m'. run_one_step flume_policy 86400 three_parcels = Inr m' \<and>
      list_all position_ok (parcels three_parcels) \<and> list_all position_ok (parcels m') \<and>
      latest (element_id (parcels three_parcels ! 2)) = Some 3 \<and>
      latest (location_in_link (parcels three_parcels ! 2)) = Some (1 / 2) \<and>
      latest (element_id (parcels m' ! 2)) = Some 5 \<and>
      latest (location_in_link (parcels m' ! 2)) = Some (3 / 4)) \<and>
   (\<exists>m'. run_loop (config3_body (run_one_step flume_policy) add_item (\<lambda>k. 0) 86400)
            [0, 86400] three_parcels = Inr m' \<and>
      list_all position_ok (parcels m')) \<and>
   cascade flume 20 0 3 (1 / 2) 225 = Inr (Landed 5 (3 / 4) 2) \<and>
   (1 - 1 / 2) * 100 < (225 :: real) \<and>
   reach_after flume 2 3 = Some 5 \<and>
   (1 / 2) * 100 + 225 = length_of_path flume 2 3 + (3 / 4) * (100 :: real) \<and>
   cascade flume 20 0 14 (1 / 2) 225 = Inr (Left_network 1) \<and>
   reach_after flume 0 14 = Some 14"
proof -
  from step_three_parcels obtain m1 where
    run1: "run_one_step flume_policy 86400 three_parcels = Inr m1" by blast
  from run_three_parcels obtain m2 where
    run2: "run_loop (config3_body (run_one_step flume_policy) add_item (\<lambda>k. 0) 86400)
            [0, 86400] three_parcels = Inr m2" by blast
  note ok = table_ok_three_parcels
  then have pre: "\<forall>p\<in>set (parcels three_parcels). position_ok p"
    by (simp add: table_ok_def)
  have nonneg: "\<forall>gs tau crit dt. 0 \<le> travel_distance flume_policy gs tau crit dt"
    by (simp add: flume_policy_simps)
  note th1 = position_in_unit_interval_or_exited
    [OF nonneg, where dt = 86400 and m = three_parcels and m' = m1 and i = 2
       and r = 3 and x = "1 / 2" and gs = "2 / 25" and v = 2
       and g = "\<lparr>reach_length = 100, channel_width = 5, channel_slope = 1 / 100,
                 flow_depth = 1, downstream = 4\<rparr>"
       and topo = flume and max_hops = 20 and d = 225
       and a = "Landed 5 (3 / 4) 2" and r' = 5 and x' = "3 / 4" and h = 2]
  note th2 = position_in_unit_interval_or_exited
    [OF nonneg, where dt = 86400 and m = three_parcels and m' = m2
       and ts = "[0, 86400]" and rand = "\<lambda>k. 0"
       and r = 14 and x = "1 / 2"
       and g = "\<lparr>reach_length = 100, channel_width = 5, channel_slope = 1 / 100,
                 flow_depth = 1, downstream = OUT_OF_NETWORK\<rparr>"
       and topo = flume and max_hops = 20 and d = 225 and h = 1]
  from th1 run1 pre have post1: "\<forall>p\<in>set (parcels m1). position_ok p" by blast
  have len: "(2 :: nat) < length (parcels three_parcels)"
    by (simp add: three_parcels_def)
  have grid: "grid three_parcels = flume"
    by (simp add: three_parcels_def)
  note before = resident_bed_parcel_state(1,2)
  from th1 [THEN conjunct2, THEN conjunct2, THEN conjunct2, THEN conjunct2, THEN conjunct1]
    run1 len
  have after: "latest (element_id (parcels m1 ! 2)) = Some 5 \<and>
      latest (location_in_link (parcels m1 ! 2)) = Some (3 / 4)"
    by (simp add: resident_bed_parcel_state flume_policy_simps OUT_OF_NETWORK_def BAD_INDEX_def
        grid cascade_flume_example)
  from th1 [THEN conjunct2, THEN conjunct2, THEN conjunct2, THEN conjunct2, THEN conjunct2]
  have walk: "(1 - 1 / 2) * 100 < (225 :: real) \<and>
      reach_after flume 2 3 = Some 5 \<and>
      (1 / 2) * 100 + 225 = length_of_path flume 2 3 + (3 / 4) * (100 :: real)"
    by (simp add: cascade_flume_example geometry_flume path_flume_example)
  from th2 [THEN conjunct2, THEN conjunct2, THEN conjunct2, THEN conjunct2, THEN conjunct2,
      THEN conjunct2, THEN conjunct2]
  have out: "reach_after flume 0 14 = Some 14"
    by (simp add: cascade_flume_example geometry_flume_outlet path_flume_example)
  from th2 run2 ok
  have "table_ok (nst_time_idx m2) (parcels m2)" by simp
  then have post2: "\<forall>p\<in>set (parcels m2). position_ok p" by (simp add: table_ok_def)
  from run1 run2 pre post1 post2 before after walk out show ?thesis
    by (auto simp: list_all_iff cascade_flume_example)
qed

section \<open>The cascade ends\<close>

text \<open>
  Claim C8.  The cascade is a total function: its recursion ends because each hop uses
  up one of the \<open>max_hops\<close> hops allowed.  An advance that returns made at most
  \<open>max_hops\<close> reach-to-reach hops.  The bound changes no advance that ends: an answer
  other than \<^verbatim>\<open>TopologyDegenerateError\<close> is the answer of the walk without a bound,
  and every answer of that walk is the cascade's for every bound that is large enough.
  On a network whose reaches drain into reaches of the network or out of it, the advance
  of a parcel on a reach of the network returns within the bound or fails with
  \<^verbatim>\<open>TopologyDegenerateError\<close>, and with no other error.  On reaches of length zero
  that drain into one another (a set \<open>S\<close> of reaches closed under the downstream map),
  a parcel with a positive distance to travel makes the walk without a bound run for
  ever; the cascade returns \<^verbatim>\<open>TopologyDegenerateError\<close> instead.
\<close>

theorem cascade_hops_bounded_or_degenerate:
  "(cascade topo max_hops 0 r x d = Inr a \<longrightarrow> hops_of a \<le> max_hops) \<and>
   (cascade topo max_hops 0 r x d = res \<and> res \<noteq> Inl TopologyDegenerateError \<longrightarrow>
      cascade_unbounded topo 0 r x d = Some res) \<and>
   (cascade_unbounded topo 0 r x d = Some res \<longrightarrow>
      (\<exists>n. \<forall>k\<ge>n. cascade topo k 0 r x d = res)) \<and>
   (wf_topology topo \<and> 0 \<le> r \<and> r < int (length topo) \<longrightarrow>
      (\<exists>b. cascade topo max_hops 0 r x d = Inr b \<and> hops_of b \<le> max_hops) \<or>
      cascade topo max_hops 0 r x d = Inl TopologyDegenerateError) \<and>
   ((\<forall>s\<in>S. \<exists>g. geometry topo s = Inr g \<and> reach_length g = 0 \<and> downstream g \<in> S) \<and>
    r \<in> S \<and> 0 < d \<longrightarrow>
      cascade_unbounded topo 0 r x d = None \<and>
      cascade topo max_hops 0 r x d = Inl TopologyDegenerateError)"
proof (intro conjI impI)
  assume "cascade topo max_hops 0 r x d = Inr a"
  then show "hops_of a \<le> max_hops"
    using cascade_hops_bounded [of 0 max_hops topo r x d a] by simp
next
  assume "cascade topo max_hops 0 r x d = res \<and> res \<noteq> Inl TopologyDegenerateError"
  then show "cascade_unbounded topo 0 r x d = Some res"
    using cascade_agrees [of topo max_hops 0 r x d res] by simp
next
  assume "cascade_unbounded topo 0 r x d = Some res"
  then show "\<exists>n. \<forall>k\<ge>n. cascade topo k 0 r x d = res"
    by (rule cascade_enough_hops)
next
  assume wf: "wf_topology topo \<and> 0 \<le> r \<and> r < int (length topo)"
  show "(\<exists>b. cascade topo max_hops 0 r x d = Inr b \<and> hops_of b \<le> max_hops) \<or>
      cascade topo max_hops 0 r x d = Inl TopologyDegenerateError"
  proof (cases "cascade topo max_hops 0 r x d")
    case (Inl e)
    with wf cascade_no_invalid_reach [of topo r max_hops 0 x d e] show ?thesis by simp
  next
    case (Inr b)
    with cascade_hops_bounded [of 0 max_hops topo r x d b] show ?thesis by simp
  qed
next
  assume c: "(\<forall>s\<in>S. \<exists>g. geometry topo s = Inr g \<and> reach_length g = 0 \<and> downstream g \<in> S) \<and>
    r \<in> S \<and> 0 < d"
  then show "cascade_unbounded topo 0 r x d = None"
    using cascade_unbounded_diverges [of S topo r d 0 x] by blast
  from c show "cascade topo max_hops 0 r x d = Inl TopologyDegenerateError"
    using cascade_degenerate [of S topo r d max_hops 0 x] by blast
qed

theorem cascade_hops_bounded_or_degenerate_witness:
  "wf_topology flume \<and>
   cascade flume 20 0 14 (1 / 2) 225 = Inr (Left_network 1) \<and>
   hops_of (Left_network 1) \<le> 20 \<and>
   cascade_unbounded flume 0 14 (1 / 2) 225 = Some (Inr (Left_network 1)) \<and>
   cascade flume 1 0 3 (1 / 2) 225 = Inl TopologyDegenerateError \<and>
   cascade_unbounded zero_cycle 0 0 0 1 = None \<and>
   cascade zero_cycle 3 0 0 0 1 = Inl TopologyDegenerateError"
proof -
  have cyc: "\<forall>s\<in>{0, 1}. \<exists>g. geometry zero_cycle s = Inr g \<and> reach_length g = 0 \<and>
      downstream g \<in> {0, 1}"
    by (simp add: geometry_def zero_cycle_def)
  note ex = cascade_flume_example(2)
  from cascade_hops_bounded_or_degenerate
    [of flume 20 14 "1 / 2" 225 "Left_network 1" "Inr (Left_network 1)" "{}"] ex
  have "hops_of (Left_network 1) \<le> 20"
    and "cascade_unbounded flume 0 14 (1 / 2) 225 = Some (Inr (Left_network 1))"
    by simp_all
  moreover
  from cascade_hops_bounded_or_degenerate
    [of zero_cycle 3 0 0 1 "Left_network 0" "Inr (Left_network 0)" "{0, 1}"] cyc
  have "cascade_unbounded zero_cycle 0 0 0 1 = None"
    and "cascade zero_cycle 3 0 0 0 1 = Inl TopologyDegenerateError" by simp_all
  moreover
  have "cascade flume 1 0 3 (1 / 2) 225 = Inl TopologyDegenerateError"
    by (simp add: cascade.simps geometry_flume OUT_OF_NETWORK_def BAD_INDEX_def)
  ultimately show ?thesis by (simp add: ex wf_topology_flume)
qed

section \<open>The pulse\<close>

text \<open>
  Claim C5.  At the pulse (\<^verbatim>\<open>t == dt*pulse_time\<close>) on a table that has recorded
  the times \<open>0\<close> to \<open>tidx\<close>, with \<^verbatim>\<open>nst._time_idx = tidx\<close>, the block succeeds and
  the table has exactly 200 rows more.  The rows it had are unchanged.  Each new row is
  tagged \<^verbatim>\<open>pulse\<close>, reports reach 5 at time \<open>tidx\<close>, has one entry per recorded
  time, and holds the null marker in every variable at every earlier time, so that its
  indices are those of the older rows.  In the notebook the pulse comes after 50 steps,
  at \<open>tidx = 50\<close>.
\<close>

theorem pulse_adds_200_parcels:
  assumes "\<forall>p\<in>set ps. aligned (Suc tidx) p"
  shows "\<exists>ps'. pulse_block add_item rand dt (dt * pulse_time) tidx ps = Inr ps' \<and>
           length ps' = length ps + 200 \<and>
           (\<forall>i<length ps. ps' ! i = ps ! i) \<and>
           (\<forall>k<200. element_id (ps' ! (length ps + k)) ! tidx = Some 5 \<and>
              source (ps' ! (length ps + k)) = ''pulse'' \<and>
              aligned (Suc tidx) (ps' ! (length ps + k)) \<and>
              born_at tidx (ps' ! (length ps + k)))"
proof -
  have n: "number_of_times tidx ps = Suc tidx"
    by (rule number_of_times_aligned [OF assms])
  define ps' where "ps' = ps @ map (\<lambda>q.
                  q\<lparr>grid_element := backfill (Suc tidx) tidx (grid_element q),
                    element_id := backfill (Suc tidx) tidx (element_id q),
                    time_arrival_in_link := backfill (Suc tidx) tidx (time_arrival_in_link q),
                    active_layer := backfill (Suc tidx) tidx (active_layer q),
                    location_in_link := backfill (Suc tidx) tidx (location_in_link q),
                    D := backfill (Suc tidx) tidx (D q),
                    volume := backfill (Suc tidx) tidx (volume q)\<rparr>)
                 (new_pulse_parcels tidx rand)"
  have run: "pulse_block add_item rand dt (dt * pulse_time) tidx ps = Inr ps'"
    by (simp add: pulse_block_def add_item_def n ps'_def)
  have len: "length ps' = length ps + 200"
    by (simp add: ps'_def length_new_pulse_parcels)
  have old: "\<forall>i<length ps. ps' ! i = ps ! i"
    by (simp add: ps'_def nth_append)
  have new: "\<forall>k<200. element_id (ps' ! (length ps + k)) ! tidx = Some 5 \<and>
              source (ps' ! (length ps + k)) = ''pulse'' \<and>
              aligned (Suc tidx) (ps' ! (length ps + k)) \<and>
              born_at tidx (ps' ! (length ps + k))"
  proof (intro allI impI)
    fix k :: nat assume k: "k < 200"
    then have "ps' ! (length ps + k) =
        \<lparr>starting_link = 5, source = ''pulse'', density = 2650, abrasion_rate = 0,
         grid_element = backfill (Suc tidx) tidx [Some ''link''],
         element_id = backfill (Suc tidx) tidx [Some 5],
         time_arrival_in_link = backfill (Suc tidx) tidx [Some (real tidx)],
         active_layer = backfill (Suc tidx) tidx [Some 1],
         location_in_link = backfill (Suc tidx) tidx [Some (rand k)],
         D = backfill (Suc tidx) tidx [Some (8 / 100)],
         volume = backfill (Suc tidx) tidx [Some 2]\<rparr>"
      by (simp add: ps'_def nth_append length_new_pulse_parcels nth_new_pulse_parcels)
    then show "element_id (ps' ! (length ps + k)) ! tidx = Some 5 \<and>
              source (ps' ! (length ps + k)) = ''pulse'' \<and>
              aligned (Suc tidx) (ps' ! (length ps + k)) \<and>
              born_at tidx (ps' ! (length ps + k))"
      by (simp add: backfill_single nth_append aligned_def born_at_def)
  qed
  from run len old new show ?thesis by blast
qed

theorem pulse_adds_200_parcels_witness:
  "\<exists>ps'. pulse_block add_item (\<lambda>k. 1 / 2) 86400 (86400 * pulse_time) 50 [resting_parcel] = Inr ps' \<and>
     length ps' = 201 \<and> ps' ! 0 = resting_parcel \<and>
     element_id (ps' ! 1) ! 50 = Some 5 \<and> element_id (ps' ! 200) ! 50 = Some 5 \<and>
     born_at 50 (ps' ! 200)"
proof -
  have "\<forall>p\<in>set [resting_parcel]. aligned (Suc 50) p"
    by (simp add: resting_parcel_def aligned_def)
  from pulse_adds_200_parcels [OF this, of "\<lambda>k. 1 / 2" 86400]
  obtain ps' where
    run: "pulse_block add_item (\<lambda>k. 1 / 2) 86400 (86400 * pulse_time) 50 [resting_parcel] = Inr ps'"
    and len: "length ps' = length [resting_parcel] + 200"
    and old: "\<forall>i<length [resting_parcel]. ps' ! i = [resting_parcel] ! i"
    and new: "\<forall>k<200. element_id (ps' ! (length [resting_parcel] + k)) ! 50 = Some 5 \<and>
              source (ps' ! (length [resting_parcel] + k)) = ''pulse'' \<and>
              aligned (Suc 50) (ps' ! (length [resting_parcel] + k)) \<and>
              born_at 50 (ps' ! (length [resting_parcel] + k))"
    by blast
  from new [rule_format, of 0] new [rule_format, of 199]
  have "element_id (ps' ! 1) ! 50 = Some 5" and "element_id (ps' ! 200) ! 50 = Some 5"
    and "born_at 50 (ps' ! 200)" by simp_all
  with run len old show ?thesis by auto
qed

end
